theory Spec2Isabelle
  imports Main "HOL-Library.AList" "HOL-Library.Char_ord" "HOL-Library.List_Lexorder"
begin

section \<open>The SQL store of the pipeline metadata service\<close>

text \<open>
  The development embeds \<^verbatim>\<open>src/zenml/zen_stores/sql_zen_store.py\<close> (class
  \<^verbatim>\<open>SqlZenStore\<close>) and the secret value codec of
  \<^verbatim>\<open>src/zenml/zen_stores/schemas/secret_schemas.py\<close>.

  Conventions of the embedding.
  \<^item> A table is the list of its rows in storage order; \<^verbatim>\<open>select(...).first()\<close> is
    \<^const>\<open>find\<close> on that list, \<^verbatim>\<open>.all()\<close> is \<^const>\<open>filter\<close>.
  \<^item> A \<^verbatim>\<open>with Session(engine) as session\<close> block runs on a session record: the
    session's view of the database (pending rows are flushed before every query, so a
    query sees the rows added earlier in the same block), the durable database, and the
    number of \<^verbatim>\<open>session.commit()\<close> calls so far. Leaving the block by an exception
    discards what was not committed.
  \<^item> A raised exception is the \<open>Inl\<close> branch of a sum, named after the Python class.
  \<^item> Only the checks written in the store code are embedded. Constraints declared in the
    table schemas (primary and foreign keys) belong to files outside these sources; where
    a property needs one, it is a hypothesis of the theorem.
\<close>

subsection \<open>Identifiers, errors, enumerations\<close>

type_synonym uuid = nat

text \<open>
  The exceptions raised by the store. \<open>KeyError\<close> is the spec's NotFound,
  \<open>ValueError\<close> its ValueTooLarge; \<open>EntityExistsError\<close> and its two subclasses
  \<open>StackExistsError\<close> and \<open>StackComponentExistsError\<close> are the spec's AlreadyExists;
  \<open>IllegalOperationError\<close> is IllegalOperation. \<open>MultipleResultsFound\<close> and
  \<open>UnmappedInstanceError\<close> are raised by the ORM (\<^verbatim>\<open>one_or_none()\<close> on several
  rows, \<^verbatim>\<open>session.delete(None)\<close>); the last four are raised by the libraries that
  the secret codec calls when they are given malformed input.
\<close>

datatype error =
    KeyError
  | ValueError
  | EntityExistsError
  | StackExistsError
  | StackComponentExistsError
  | IllegalOperationError
  | MultipleResultsFound
  | UnmappedInstanceError
  | JSONDecodeError
  | BinasciiError
  | UnicodeError
  | InvalidCiphertextError


text \<open>
  Modelled from the spec: \<^verbatim>\<open>zenml.enums.ExecutionStatus\<close>, a fixed set of statuses with
  a terminal state "cached".
\<close>

datatype ExecutionStatus = FAILED | COMPLETED | RUNNING | CACHED

text \<open>
  Modelled from the spec: \<^verbatim>\<open>zenml.enums.StackComponentType\<close>; the store code names the
  orchestrator and the artifact store, every other type is \<open>OTHER_TYPE\<close> of its name.
\<close>

datatype StackComponentType = ORCHESTRATOR | ARTIFACT_STORE | OTHER_TYPE string

text \<open>A value of Python type \<^verbatim>\<open>Union[str, UUID]\<close>.\<close>

datatype name_or_id = Uuid uuid | Str string

subsection \<open>Rows and models\<close>

record ProjectSchema =
  project_id :: uuid
  project_name :: string

record UserSchema =
  user_id :: uuid
  user_name :: string

record TeamSchema =
  team_id :: uuid
  team_name :: string

record RoleSchema =
  role_id :: uuid
  role_name :: string

record RolePermissionSchema =
  perm_name :: string
  perm_role_id :: uuid

record UserRoleAssignmentSchema =
  ura_role_id :: uuid
  ura_user_id :: uuid
  ura_project_id :: "uuid option"

record TeamRoleAssignmentSchema =
  tra_role_id :: uuid
  tra_team_id :: uuid
  tra_project_id :: "uuid option"

record StackComponentSchema =
  comp_id :: uuid
  comp_name :: string
  comp_type :: StackComponentType
  comp_flavor :: string
  comp_project :: uuid
  comp_user :: uuid
  comp_is_shared :: bool

record StackSchema =
  stack_id :: uuid
  stack_name :: string
  stack_project :: uuid
  stack_user :: uuid
  stack_is_shared :: bool

record StackCompositionSchema =
  sc_stack_id :: uuid
  sc_component_id :: uuid

record PipelineSchema =
  pipeline_id :: uuid
  pipeline_name :: string

record PipelineRunSchema =
  run_id :: uuid
  run_name :: string
  run_stack_id :: "uuid option"
  run_pipeline_id :: "uuid option"

record StepRunSchema =
  step_id :: uuid
  step_name :: string
  step_pipeline_run_id :: uuid
  step_status :: ExecutionStatus

record StepRunParentsSchema =
  parent_id :: uuid
  child_id :: uuid

record StepRunInputArtifactSchema =
  in_step_run_id :: uuid
  in_artifact_id :: uuid
  in_name :: string

record StepRunOutputArtifactSchema =
  out_step_run_id :: uuid
  out_artifact_id :: uuid
  out_name :: string

record ArtifactSchema =
  artifact_id :: uuid
  artifact_uri :: string



record StepRunModel =
  srm_id :: uuid
  srm_name :: string
  srm_pipeline_run_id :: uuid
  srm_status :: ExecutionStatus
  srm_parent_step_ids :: "uuid list"
  srm_input_artifacts :: "(string \<times> uuid) list"
  srm_output_artifacts :: "(string \<times> uuid) list"

subsection \<open>The database and the session\<close>

record store =
  projects :: "ProjectSchema list"
  users :: "UserSchema list"
  teams :: "TeamSchema list"
  roles :: "RoleSchema list"
  role_permissions :: "RolePermissionSchema list"
  user_role_assignments :: "UserRoleAssignmentSchema list"
  team_role_assignments :: "TeamRoleAssignmentSchema list"
  stack_components :: "StackComponentSchema list"
  stacks :: "StackSchema list"
  stack_compositions :: "StackCompositionSchema list"
  pipelines :: "PipelineSchema list"
  pipeline_runs :: "PipelineRunSchema list"
  step_runs :: "StepRunSchema list"
  step_run_parents :: "StepRunParentsSchema list"
  step_run_input_artifacts :: "StepRunInputArtifactSchema list"
  step_run_output_artifacts :: "StepRunOutputArtifactSchema list"
  artifacts :: "ArtifactSchema list"

definition empty_store :: store where
  "empty_store = \<lparr> projects = [], users = [], teams = [], roles = [],
     role_permissions = [], user_role_assignments = [], team_role_assignments = [],
     stack_components = [], stacks = [], stack_compositions = [], pipelines = [],
     pipeline_runs = [], step_runs = [], step_run_parents = [],
     step_run_input_artifacts = [], step_run_output_artifacts = [], artifacts = [] \<rparr>"

record session =
  view :: store
  durable :: store
  commits :: nat

text \<open>\<^verbatim>\<open>Session(self.engine)\<close>: a fresh session on the database.\<close>

definition Session :: "store \<Rightarrow> session" where
  "Session db = \<lparr> view = db, durable = db, commits = 0 \<rparr>"

text \<open>\<^verbatim>\<open>session.commit()\<close>\<close>

definition commit :: "session \<Rightarrow> session" where
  "commit s = s\<lparr> durable := view s, commits := Suc (commits s) \<rparr>"

text \<open>Leaving the \<^verbatim>\<open>with\<close> block by an exception: pending changes are dropped.\<close>

definition rollback :: "session \<Rightarrow> session" where
  "rollback s = s\<lparr> view := durable s \<rparr>"

text \<open>
  What a public operation of the store yields: the returned value or the raised
  exception, and the session as the \<^verbatim>\<open>with\<close> block leaves it. The database after
  the call is \<^const>\<open>durable\<close> of that session.
\<close>

type_synonym 'a outcome = "(error + 'a) \<times> session"

definition raise :: "error \<Rightarrow> session \<Rightarrow> 'a outcome" where
  "raise e s = (Inl e, rollback s)"

text \<open>A \<^verbatim>\<open>for\<close> loop over calls that may raise: the first exception ends it.\<close>

fun for_each :: "('a \<Rightarrow> session \<Rightarrow> error + session) \<Rightarrow> 'a list \<Rightarrow> session
    \<Rightarrow> error + session" where
  "for_each f [] s = Inr s"
| "for_each f (x # xs) s =
     (case f x s of Inl e \<Rightarrow> Inl e | Inr s' \<Rightarrow> for_each f xs s')"

subsection \<open>The run-lineage graph\<close>

text \<open>\<^verbatim>\<open>_set_run_step_parent_step(child_id, parent_id, session)\<close>\<close>

definition set_run_step_parent_step :: "uuid \<Rightarrow> uuid \<Rightarrow> session \<Rightarrow> error + session" where
  "set_run_step_parent_step child parent s =
     (case find (\<lambda>r. step_id r = child) (step_runs (view s)) of
        None \<Rightarrow> Inl KeyError
      | Some child_step_run \<Rightarrow>
     (case find (\<lambda>r. step_id r = parent) (step_runs (view s)) of
        None \<Rightarrow> Inl KeyError
      | Some parent_step_run \<Rightarrow>
     (case find (\<lambda>a. child_id a = child \<and> parent_id a = parent)
                (step_run_parents (view s)) of
        Some assignment \<Rightarrow> Inr s
      | None \<Rightarrow>
          Inr (s\<lparr> view := (view s)\<lparr> step_run_parents :=
                 step_run_parents (view s) @ [\<lparr> parent_id = parent, child_id = child \<rparr>] \<rparr> \<rparr>))))"

text \<open>\<^verbatim>\<open>_set_run_step_input_artifact(run_step_id, artifact_id, name, session)\<close>\<close>

definition set_run_step_input_artifact :: "uuid \<Rightarrow> uuid \<Rightarrow> string \<Rightarrow> session
    \<Rightarrow> error + session" where
  "set_run_step_input_artifact run_step_id art name s =
     (case find (\<lambda>r. step_id r = run_step_id) (step_runs (view s)) of
        None \<Rightarrow> Inl KeyError
      | Some step_run \<Rightarrow>
     (case find (\<lambda>a. artifact_id a = art) (artifacts (view s)) of
        None \<Rightarrow> Inl KeyError
      | Some artifact \<Rightarrow>
     (case find (\<lambda>a. in_step_run_id a = run_step_id \<and> in_artifact_id a = art)
                (step_run_input_artifacts (view s)) of
        Some assignment \<Rightarrow> Inr s
      | None \<Rightarrow>
          Inr (s\<lparr> view := (view s)\<lparr> step_run_input_artifacts :=
                 step_run_input_artifacts (view s) @
                 [\<lparr> in_step_run_id = run_step_id, in_artifact_id = art, in_name = name \<rparr>] \<rparr> \<rparr>))))"

text \<open>\<^verbatim>\<open>_set_run_step_output_artifact(step_run_id, artifact_id, name, session)\<close>\<close>

definition set_run_step_output_artifact :: "uuid \<Rightarrow> uuid \<Rightarrow> string \<Rightarrow> session
    \<Rightarrow> error + session" where
  "set_run_step_output_artifact step_run_id art name s =
     (case find (\<lambda>r. step_id r = step_run_id) (step_runs (view s)) of
        None \<Rightarrow> Inl KeyError
      | Some step_run \<Rightarrow>
     (case find (\<lambda>a. artifact_id a = art) (artifacts (view s)) of
        None \<Rightarrow> Inl KeyError
      | Some artifact \<Rightarrow>
     (case find (\<lambda>a. out_step_run_id a = step_run_id \<and> out_artifact_id a = art)
                (step_run_output_artifacts (view s)) of
        Some assignment \<Rightarrow> Inr s
      | None \<Rightarrow>
          Inr (s\<lparr> view := (view s)\<lparr> step_run_output_artifacts :=
                 step_run_output_artifacts (view s) @
                 [\<lparr> out_step_run_id = step_run_id, out_artifact_id = art, out_name = name \<rparr>] \<rparr> \<rparr>))))"

text \<open>
  \<^verbatim>\<open>StepRunSchema.from_create_model\<close>, \<^verbatim>\<open>from_update_model\<close> and \<^verbatim>\<open>to_model\<close>.
  Modelled from the spec: the schema classes are not part of the sources; a row takes
  its fields from the model, an update persists whatever status is supplied, and the
  model of a row carries the three graph relations it is given.
\<close>

definition step_from_create_model :: "StepRunModel \<Rightarrow> StepRunSchema" where
  "step_from_create_model m =
     \<lparr> step_id = srm_id m, step_name = srm_name m,
       step_pipeline_run_id = srm_pipeline_run_id m, step_status = srm_status m \<rparr>"

definition step_from_update_model :: "StepRunSchema \<Rightarrow> StepRunModel \<Rightarrow> StepRunSchema" where
  "step_from_update_model r m = r\<lparr> step_status := srm_status m \<rparr>"

definition step_to_model :: "StepRunSchema \<Rightarrow> uuid list \<Rightarrow> (string \<times> uuid) list
    \<Rightarrow> (string \<times> uuid) list \<Rightarrow> StepRunModel" where
  "step_to_model r ps ins outs =
     \<lparr> srm_id = step_id r, srm_name = step_name r,
       srm_pipeline_run_id = step_pipeline_run_id r, srm_status = step_status r,
       srm_parent_step_ids = ps, srm_input_artifacts = ins, srm_output_artifacts = outs \<rparr>"

text \<open>
  An attribute change of a loaded row followed by \<^verbatim>\<open>session.add(row)\<close>: the row that
  the query returned (the first match) is replaced in place.
\<close>

fun update_first :: "('a \<Rightarrow> bool) \<Rightarrow> ('a \<Rightarrow> 'a) \<Rightarrow> 'a list \<Rightarrow> 'a list" where
  "update_first P f [] = []"
| "update_first P f (x # xs) = (if P x then f x # xs else x # update_first P f xs)"

text \<open>\<^verbatim>\<open>create_run_step(step_run)\<close>\<close>

definition create_run_step :: "StepRunModel \<Rightarrow> store \<Rightarrow> StepRunModel outcome" where
  "create_run_step step_run db =
     (let s = Session db in
      case find (\<lambda>r. run_id r = srm_pipeline_run_id step_run) (pipeline_runs (view s)) of
        None \<Rightarrow> raise KeyError s
      | Some run \<Rightarrow>
     (case find (\<lambda>r. step_name r = srm_name step_run \<and>
                      step_pipeline_run_id r = srm_pipeline_run_id step_run)
                (step_runs (view s)) of
        Some existing_step_run \<Rightarrow> raise EntityExistsError s
      | None \<Rightarrow>
     (let step_schema = step_from_create_model step_run;
          s1 = s\<lparr> view := (view s)\<lparr> step_runs := step_runs (view s) @ [step_schema] \<rparr> \<rparr>
      in
      case for_each (\<lambda>parent_step_id. set_run_step_parent_step (srm_id step_run) parent_step_id)
             (srm_parent_step_ids step_run) s1 of
        Inl e \<Rightarrow> raise e s1
      | Inr s2 \<Rightarrow>
     (case for_each (\<lambda>(input_name, art). set_run_step_input_artifact (srm_id step_run) art input_name)
             (srm_input_artifacts step_run) s2 of
        Inl e \<Rightarrow> raise e s2
      | Inr s3 \<Rightarrow>
     (case for_each (\<lambda>(output_name, art). set_run_step_output_artifact (srm_id step_run) art output_name)
             (srm_output_artifacts step_run) s3 of
        Inl e \<Rightarrow> raise e s3
      | Inr s4 \<Rightarrow>
          (Inr (step_to_model step_schema (srm_parent_step_ids step_run)
                  (srm_input_artifacts step_run) (srm_output_artifacts step_run)),
           commit s4))))))"

text \<open>\<^verbatim>\<open>update_run_step(step_run)\<close>\<close>

definition update_run_step :: "StepRunModel \<Rightarrow> store \<Rightarrow> StepRunModel outcome" where
  "update_run_step step_run db =
     (let s = Session db in
      case find (\<lambda>r. step_id r = srm_id step_run) (step_runs (view s)) of
        None \<Rightarrow> raise KeyError s
      | Some existing_step_run \<Rightarrow>
     (let updated = step_from_update_model existing_step_run step_run;
          s1 = s\<lparr> view := (view s)\<lparr> step_runs :=
                  update_first (\<lambda>r. step_id r = srm_id step_run) (\<lambda>r. updated)
                    (step_runs (view s)) \<rparr> \<rparr>
      in
      case for_each (\<lambda>(output_name, art). set_run_step_output_artifact (srm_id step_run) art output_name)
             (srm_output_artifacts step_run) s1 of
        Inl e \<Rightarrow> raise e s1
      | Inr s2 \<Rightarrow>
          (Inr (step_to_model updated (srm_parent_step_ids step_run)
                  (srm_input_artifacts step_run) (srm_output_artifacts step_run)),
           commit s2)))"

text \<open>
  \<^verbatim>\<open>_run_step_schema_to_model(step_run)\<close>: three reads in a session of its own. The
  parent query is a join of the step table with the parent edges; the two dictionary
  comprehensions keep, for a name that occurs twice, the last artifact.
\<close>

definition run_step_schema_to_model :: "StepRunSchema \<Rightarrow> store \<Rightarrow> StepRunModel" where
  "run_step_schema_to_model step_run db =
     (let parent_step_ids =
            concat (map (\<lambda>p. map (\<lambda>e. step_id p)
                      (filter (\<lambda>e. child_id e = step_id step_run \<and> parent_id e = step_id p)
                         (step_run_parents db)))
                    (step_runs db));
          input_artifacts =
            foldl (\<lambda>d e. AList.update (in_name e) (in_artifact_id e) d) []
              (filter (\<lambda>e. in_step_run_id e = step_id step_run) (step_run_input_artifacts db));
          output_artifacts =
            foldl (\<lambda>d e. AList.update (out_name e) (out_artifact_id e) d) []
              (filter (\<lambda>e. out_step_run_id e = step_id step_run) (step_run_output_artifacts db))
      in step_to_model step_run parent_step_ids input_artifacts output_artifacts)"

text \<open>\<^verbatim>\<open>get_run_step(step_run_id)\<close>\<close>

definition get_run_step :: "uuid \<Rightarrow> store \<Rightarrow> StepRunModel outcome" where
  "get_run_step step_run_id db =
     (let s = Session db in
      case find (\<lambda>r. step_id r = step_run_id) (step_runs (view s)) of
        None \<Rightarrow> raise KeyError s
      | Some step_run \<Rightarrow> (Inr (run_step_schema_to_model step_run (durable s)), s))"

text \<open>
  \<^verbatim>\<open>get_artifact_producer_step(artifact_id)\<close>: the first output edge of the artifact
  that joins with a step row whose status is not \<open>CACHED\<close>, then \<open>get_run_step\<close> of the
  edge's step id.
\<close>

definition get_artifact_producer_step :: "uuid \<Rightarrow> store \<Rightarrow> StepRunModel outcome" where
  "get_artifact_producer_step art db =
     (let s = Session db in
      case find (\<lambda>e. out_artifact_id e = art \<and>
                  list_ex (\<lambda>r. out_step_run_id e = step_id r \<and> step_status r \<noteq> CACHED)
                    (step_runs (view s)))
             (step_run_output_artifacts (view s)) of
        None \<Rightarrow> raise KeyError s
      | Some output_artifact \<Rightarrow> get_run_step (out_step_run_id output_artifact) (durable s))"

subsection \<open>The identity resolver\<close>

text \<open>
  \<^verbatim>\<open>uuid_utils.is_valid_uuid\<close> is not part of the sources. It is taken as a parameter
  \<open>parse_uuid\<close>: the identifier a string denotes, if it is written as one. A value that
  already is a \<^verbatim>\<open>UUID\<close> is valid.
\<close>

type_synonym uuid_parser = "string \<Rightarrow> uuid option"

text \<open>
  \<^verbatim>\<open>_get_schema_by_name_or_id(object_name_or_id, schema_class, schema_name, session)\<close>.
  The schema class is given by its table and the two columns \<open>id\<close> and \<open>name\<close>. The
  filter is on \<open>id\<close> when \<^verbatim>\<open>is_valid_uuid(object_name_or_id)\<close> holds (a \<^verbatim>\<open>UUID\<close>, or a
  string that parses as one), on \<open>name\<close> otherwise.
\<close>

definition get_schema_by_name_or_id :: "uuid_parser \<Rightarrow> name_or_id option
    \<Rightarrow> ('r \<Rightarrow> uuid) \<Rightarrow> ('r \<Rightarrow> string) \<Rightarrow> 'r list \<Rightarrow> error + 'r" where
  "get_schema_by_name_or_id parse_uuid object_name_or_id id_of name_of table =
     (case object_name_or_id of
        None \<Rightarrow> Inl ValueError
      | Some x \<Rightarrow>
          (let flt = (case x of
                        Uuid u \<Rightarrow> (\<lambda>r. id_of r = u)
                      | Str str \<Rightarrow>
                          (case parse_uuid str of
                             Some u \<Rightarrow> (\<lambda>r. id_of r = u)
                           | None \<Rightarrow> (\<lambda>r. name_of r = str)))
           in case find flt table of
                None \<Rightarrow> Inl KeyError
              | Some schema \<Rightarrow> Inr schema))"

definition get_project_schema :: "uuid_parser \<Rightarrow> name_or_id \<Rightarrow> session
    \<Rightarrow> error + ProjectSchema" where
  "get_project_schema parse_uuid project_name_or_id s =
     get_schema_by_name_or_id parse_uuid (Some project_name_or_id) project_id project_name
       (projects (view s))"

definition get_user_schema :: "uuid_parser \<Rightarrow> name_or_id \<Rightarrow> session
    \<Rightarrow> error + UserSchema" where
  "get_user_schema parse_uuid user_name_or_id s =
     get_schema_by_name_or_id parse_uuid (Some user_name_or_id) user_id user_name
       (users (view s))"

definition get_team_schema :: "uuid_parser \<Rightarrow> name_or_id \<Rightarrow> session
    \<Rightarrow> error + TeamSchema" where
  "get_team_schema parse_uuid team_name_or_id s =
     get_schema_by_name_or_id parse_uuid (Some team_name_or_id) team_id team_name
       (teams (view s))"

definition get_role_schema :: "uuid_parser \<Rightarrow> name_or_id \<Rightarrow> session
    \<Rightarrow> error + RoleSchema" where
  "get_role_schema parse_uuid role_name_or_id s =
     get_schema_by_name_or_id parse_uuid (Some role_name_or_id) role_id role_name
       (roles (view s))"


text \<open>
  The truth value of an optional \<^verbatim>\<open>Union[str, UUID]\<close> in \<^verbatim>\<open>if project_name_or_id:\<close>:
  \<^verbatim>\<open>None\<close> and the empty string are false.
\<close>

definition truthy :: "name_or_id option \<Rightarrow> bool" where
  "truthy x = (case x of None \<Rightarrow> False | Some (Uuid u) \<Rightarrow> True | Some (Str str) \<Rightarrow> str \<noteq> [])"

subsection \<open>Pipeline runs\<close>




subsection \<open>Stack components\<close>











subsection \<open>Stacks\<close>












subsection \<open>Roles\<close>









subsection \<open>Role assignments\<close>

text \<open>
  \<^verbatim>\<open>_assign_role_to_user(role_name_or_id, user_name_or_id, project_name_or_id)\<close>. The
  query for an existing assignment is on user and role; the project condition is added
  only \<^verbatim>\<open>if project is not None\<close>.
\<close>

definition assign_role_to_user :: "uuid_parser \<Rightarrow> name_or_id \<Rightarrow> name_or_id
    \<Rightarrow> name_or_id option \<Rightarrow> store \<Rightarrow> unit outcome" where
  "assign_role_to_user parse_uuid role_name_or_id user_name_or_id project_name_or_id db =
     (let s = Session db in
      case get_role_schema parse_uuid role_name_or_id s of
        Inl e \<Rightarrow> raise e s
      | Inr role \<Rightarrow>
     (case (case project_name_or_id of
              None \<Rightarrow> Inr None
            | Some p \<Rightarrow>
                if truthy (Some p)
                then (case get_project_schema parse_uuid p s of
                        Inl e \<Rightarrow> Inl e
                      | Inr project \<Rightarrow> Inr (Some project))
                else Inr None) of
        Inl e \<Rightarrow> raise e s
      | Inr project \<Rightarrow>
     (case get_user_schema parse_uuid user_name_or_id s of
        Inl e \<Rightarrow> raise e s
      | Inr user \<Rightarrow>
     (case find (\<lambda>a. ura_user_id a = user_id user \<and> ura_role_id a = role_id role \<and>
                      (case project of
                         None \<Rightarrow> True
                       | Some p \<Rightarrow> ura_project_id a = Some (project_id p)))
                (user_role_assignments (view s)) of
        Some existing_role_assignment \<Rightarrow> raise EntityExistsError s
      | None \<Rightarrow>
          (let role_assignment =
                 \<lparr> ura_role_id = role_id role, ura_user_id = user_id user,
                   ura_project_id = map_option project_id project \<rparr>;
               s1 = s\<lparr> view := (view s)\<lparr> user_role_assignments :=
                       user_role_assignments (view s) @ [role_assignment] \<rparr> \<rparr>
           in (Inr (), commit s1))))))"

text \<open>\<^verbatim>\<open>_assign_role_to_team(role_name_or_id, team_name_or_id, project_name_or_id)\<close>\<close>

definition assign_role_to_team :: "uuid_parser \<Rightarrow> name_or_id \<Rightarrow> name_or_id
    \<Rightarrow> name_or_id option \<Rightarrow> store \<Rightarrow> unit outcome" where
  "assign_role_to_team parse_uuid role_name_or_id team_name_or_id project_name_or_id db =
     (let s = Session db in
      case get_role_schema parse_uuid role_name_or_id s of
        Inl e \<Rightarrow> raise e s
      | Inr role \<Rightarrow>
     (case (case project_name_or_id of
              None \<Rightarrow> Inr None
            | Some p \<Rightarrow>
                if truthy (Some p)
                then (case get_project_schema parse_uuid p s of
                        Inl e \<Rightarrow> Inl e
                      | Inr project \<Rightarrow> Inr (Some project))
                else Inr None) of
        Inl e \<Rightarrow> raise e s
      | Inr project \<Rightarrow>
     (case get_team_schema parse_uuid team_name_or_id s of
        Inl e \<Rightarrow> raise e s
      | Inr team \<Rightarrow>
     (case find (\<lambda>a. tra_team_id a = team_id team \<and> tra_role_id a = role_id role \<and>
                      (case project of
                         None \<Rightarrow> True
                       | Some p \<Rightarrow> tra_project_id a = Some (project_id p)))
                (team_role_assignments (view s)) of
        Some existing_role_assignment \<Rightarrow> raise EntityExistsError s
      | None \<Rightarrow>
          (let role_assignment =
                 \<lparr> tra_role_id = role_id role, tra_team_id = team_id team,
                   tra_project_id = map_option project_id project \<rparr>;
               s1 = s\<lparr> view := (view s)\<lparr> team_role_assignments :=
                       team_role_assignments (view s) @ [role_assignment] \<rparr> \<rparr>
           in (Inr (), commit s1))))))"

text \<open>\<^verbatim>\<open>assign_role(role_name_or_id, user_or_team_name_or_id, project_name_or_id, is_user)\<close>\<close>

definition assign_role :: "uuid_parser \<Rightarrow> name_or_id \<Rightarrow> name_or_id \<Rightarrow> name_or_id option
    \<Rightarrow> bool \<Rightarrow> store \<Rightarrow> unit outcome" where
  "assign_role parse_uuid role_name_or_id user_or_team_name_or_id project_name_or_id is_user db =
     (if is_user
      then assign_role_to_user parse_uuid role_name_or_id user_or_team_name_or_id
             project_name_or_id db
      else assign_role_to_team parse_uuid role_name_or_id user_or_team_name_or_id
             project_name_or_id db)"

subsection \<open>Transactions\<close>


subsection \<open>The secret values codec\<close>

text \<open>
  \<^verbatim>\<open>SecretSchema._dump_secret_values\<close> and \<^verbatim>\<open>_load_secret_values\<close> call the standard
  library (\<^verbatim>\<open>json\<close>, \<^verbatim>\<open>base64\<close>, \<^verbatim>\<open>str.encode\<close>, \<^verbatim>\<open>bytes.decode\<close>) and an
  encryption engine. The library functions are embedded as they behave on the documents
  the codec handles; the engine and the constant \<^verbatim>\<open>TEXT_FIELD_MAX_LENGTH\<close> are parameters.

  A Python \<^verbatim>\<open>str\<close> is the list of its code points, a \<^verbatim>\<open>bytes\<close> object the list of its
  byte values. A \<^verbatim>\<open>Dict[str, str]\<close> is an association list in insertion order.
\<close>

type_synonym pystr = "nat list"
type_synonym bytes = "nat list"

text \<open>
  \<^verbatim>\<open>json.dumps\<close> of a string, with the default \<^verbatim>\<open>ensure_ascii=True\<close>: the quote and the
  backslash are escaped, the control characters 8, 9, 10, 12 and 13 have short escapes,
  the printable ASCII characters (32 to 126) stand for themselves, and every other code
  point is written as \<^verbatim>\<open>\uXXXX\<close> with four lower-case hex digits, those beyond
  \<^verbatim>\<open>0xFFFF\<close> as a surrogate pair of two such escapes.
\<close>

definition hexdigit :: "nat \<Rightarrow> nat" where
  "hexdigit d = (if d < 10 then 48 + d else 87 + d)"

definition hex4 :: "nat \<Rightarrow> pystr" where
  "hex4 n = [hexdigit (n div 4096 mod 16), hexdigit (n div 256 mod 16),
             hexdigit (n div 16 mod 16), hexdigit (n mod 16)]"

definition u_escape :: "nat \<Rightarrow> pystr" where
  "u_escape n = 92 # 117 # hex4 n"

definition escape_ascii :: "nat \<Rightarrow> pystr" where
  "escape_ascii c =
     (if c = 34 then [92, 34]
      else if c = 92 then [92, 92]
      else if c = 10 then [92, 110]
      else if c = 13 then [92, 114]
      else if c = 9 then [92, 116]
      else if c = 12 then [92, 102]
      else if c = 8 then [92, 98]
      else if 32 \<le> c \<and> c \<le> 126 then [c]
      else if c < 65536 then u_escape c
      else u_escape (55296 + (c - 65536) div 1024 mod 1024) @
           u_escape (56320 + (c - 65536) mod 1024))"

definition escaped :: "pystr \<Rightarrow> pystr" where
  "escaped str = concat (map escape_ascii str)"

definition encode_basestring_ascii :: "pystr \<Rightarrow> pystr" where
  "encode_basestring_ascii str = 34 # escaped str @ [34]"

text \<open>
  \<^verbatim>\<open>json.dumps\<close> of a dictionary of strings, with the default separators
  \<^verbatim>\<open>", "\<close> and \<^verbatim>\<open>": "\<close>.
\<close>

fun dumps_items :: "(pystr \<times> pystr) list \<Rightarrow> pystr" where
  "dumps_items [] = []"
| "dumps_items [(k, v)] =
     encode_basestring_ascii k @ [58, 32] @ encode_basestring_ascii v"
| "dumps_items ((k, v) # kv # rest) =
     encode_basestring_ascii k @ [58, 32] @ encode_basestring_ascii v @ [44, 32] @
     dumps_items (kv # rest)"

definition json_dumps :: "(pystr \<times> pystr) list \<Rightarrow> pystr" where
  "json_dumps values = [123] @ dumps_items values @ [125]"

text \<open>
  The string scanner of \<^verbatim>\<open>json.loads\<close> (strict mode), started behind the opening
  quote: it returns the decoded string and the text behind the closing quote. An escape
  \<^verbatim>\<open>\uXXXX\<close> of a high surrogate (\<^verbatim>\<open>0xD800\<close> to \<^verbatim>\<open>0xDBFF\<close>) that is followed by an
  escape of a low surrogate (\<^verbatim>\<open>0xDC00\<close> to \<^verbatim>\<open>0xDFFF\<close>) is decoded, together with it, as
  one code point.
\<close>

definition hexval :: "nat \<Rightarrow> nat option" where
  "hexval c =
     (if 48 \<le> c \<and> c \<le> 57 then Some (c - 48)
      else if 97 \<le> c \<and> c \<le> 102 then Some (c - 87)
      else if 65 \<le> c \<and> c \<le> 70 then Some (c - 55)
      else None)"

text \<open>\<^verbatim>\<open>_decode_uXXXX\<close>: the value of a slice of four hex digits.\<close>

definition decode_uXXXX :: "pystr \<Rightarrow> nat option" where
  "decode_uXXXX esc =
     (case esc of
        [a, b, c, d] \<Rightarrow>
          (case (hexval a, hexval b, hexval c, hexval d) of
             (Some x, Some y, Some z, Some w) \<Rightarrow> Some (4096 * x + 256 * y + 16 * z + w)
           | _ \<Rightarrow> None)
      | _ \<Rightarrow> None)"

definition backslash :: "nat \<Rightarrow> nat option" where
  "backslash e =
     (if e = 34 then Some 34
      else if e = 92 then Some 92
      else if e = 47 then Some 47
      else if e = 98 then Some 8
      else if e = 102 then Some 12
      else if e = 110 then Some 10
      else if e = 114 then Some 13
      else if e = 116 then Some 9
      else None)"

definition cons_char :: "nat \<Rightarrow> (pystr \<times> pystr) option \<Rightarrow> (pystr \<times> pystr) option" where
  "cons_char c r = (case r of None \<Rightarrow> None | Some (str, rest) \<Rightarrow> Some (c # str, rest))"

definition high_surrogate :: "nat \<Rightarrow> bool" where
  "high_surrogate c \<longleftrightarrow> 55296 \<le> c \<and> c \<le> 56319"

definition low_surrogate :: "nat \<Rightarrow> bool" where
  "low_surrogate c \<longleftrightarrow> 56320 \<le> c \<and> c \<le> 57343"

fun scanstring :: "pystr \<Rightarrow> (pystr \<times> pystr) option" where
  "scanstring [] = None"
| "scanstring (c # cs) =
     (if c = 34 then Some ([], cs)
      else if c = 92 then
        (case cs of
           [] \<Rightarrow> None
         | e # cs1 \<Rightarrow>
             if e = 117 then
               (case decode_uXXXX (take 4 cs1) of
                  None \<Rightarrow> None
                | Some uni \<Rightarrow>
                    if high_surrogate uni \<and> take 2 (drop 4 cs1) = [92, 117] then
                      (case decode_uXXXX (take 4 (drop 6 cs1)) of
                         None \<Rightarrow> None
                       | Some uni2 \<Rightarrow>
                           if low_surrogate uni2
                           then cons_char (65536 + ((uni - 55296) * 1024 + (uni2 - 56320)))
                                  (scanstring (drop 10 cs1))
                           else cons_char uni (scanstring (drop 4 cs1)))
                    else cons_char uni (scanstring (drop 4 cs1)))
             else (case backslash e of
                     None \<Rightarrow> None
                   | Some ch \<Rightarrow> cons_char ch (scanstring cs1)))
      else if c < 32 then None
      else cons_char c (scanstring cs))"

text \<open>\<^verbatim>\<open>json\<close> whitespace: space, tab, line feed, carriage return.\<close>

definition skip_ws :: "pystr \<Rightarrow> pystr" where
  "skip_ws = dropWhile (\<lambda>c. c = 32 \<or> c = 9 \<or> c = 10 \<or> c = 13)"

text \<open>
  The members of an object, started behind the opening quote of a key. The values are
  strings: any other value ends the parse without a result. The recursion is bounded by
  a number of members to read; \<open>json_loads\<close> gives it the length of the text, which no
  object exceeds.
\<close>

fun parse_pairs :: "nat \<Rightarrow> pystr \<Rightarrow> ((pystr \<times> pystr) list \<times> pystr) option" where
  "parse_pairs 0 txt = None"
| "parse_pairs (Suc n) txt =
     (case scanstring txt of
        None \<Rightarrow> None
      | Some (key, t1) \<Rightarrow>
     (case skip_ws t1 of
        [] \<Rightarrow> None
      | colon # t2 \<Rightarrow>
          if colon \<noteq> 58 then None else
     (case skip_ws t2 of
        [] \<Rightarrow> None
      | quote # t3 \<Rightarrow>
          if quote \<noteq> 34 then None else
     (case scanstring t3 of
        None \<Rightarrow> None
      | Some (val, t4) \<Rightarrow>
     (case skip_ws t4 of
        [] \<Rightarrow> None
      | nextchar # t5 \<Rightarrow>
          if nextchar = 125 then Some ([(key, val)], t5)
          else if nextchar \<noteq> 44 then None
          else
     (case skip_ws t5 of
        [] \<Rightarrow> None
      | quote2 # t6 \<Rightarrow>
          if quote2 \<noteq> 34 then None
          else (case parse_pairs n t6 of
                  None \<Rightarrow> None
                | Some (pairs, rest) \<Rightarrow> Some ((key, val) # pairs, rest))))))))"

text \<open>\<^verbatim>\<open>dict(pairs)\<close>: a key that comes again keeps its place and takes the later value.\<close>

definition dict_of :: "(pystr \<times> pystr) list \<Rightarrow> (pystr \<times> pystr) list" where
  "dict_of pairs = foldl (\<lambda>d (k, v). AList.update k v d) [] pairs"

text \<open>
  \<^verbatim>\<open>json.loads\<close> on a text that is an object with string values. Malformed text raises
  \<open>JSONDecodeError\<close>; so does, in this embedding, a document of any other shape, which
  the library would return as a value that is no \<^verbatim>\<open>Dict[str, str]\<close>.
\<close>

definition json_loads :: "pystr \<Rightarrow> error + (pystr \<times> pystr) list" where
  "json_loads txt =
     (case skip_ws txt of
        [] \<Rightarrow> Inl JSONDecodeError
      | brace # t1 \<Rightarrow>
          if brace \<noteq> 123 then Inl JSONDecodeError else
     (case skip_ws t1 of
        [] \<Rightarrow> Inl JSONDecodeError
      | nextchar # t2 \<Rightarrow>
          if nextchar = 125
          then (if skip_ws t2 = [] then Inr [] else Inl JSONDecodeError)
          else if nextchar \<noteq> 34 then Inl JSONDecodeError
          else (case parse_pairs (length txt) t2 of
                  None \<Rightarrow> Inl JSONDecodeError
                | Some (pairs, rest) \<Rightarrow>
                    if skip_ws rest = [] then Inr (dict_of pairs)
                    else Inl JSONDecodeError)))"

text \<open>
  \<^verbatim>\<open>str.encode("utf-8")\<close> and \<^verbatim>\<open>bytes.decode()\<close>. A surrogate code point has no
  encoding; the decoder refuses overlong forms, surrogates and values beyond
  \<^verbatim>\<open>0x10FFFF\<close>.
\<close>

definition utf8_encode_char :: "nat \<Rightarrow> bytes option" where
  "utf8_encode_char c =
     (if c < 128 then Some [c]
      else if c < 2048 then Some [192 + c div 64, 128 + c mod 64]
      else if 55296 \<le> c \<and> c \<le> 57343 then None
      else if c < 65536 then Some [224 + c div 4096, 128 + c div 64 mod 64, 128 + c mod 64]
      else if c < 1114112
      then Some [240 + c div 262144, 128 + c div 4096 mod 64, 128 + c div 64 mod 64,
                 128 + c mod 64]
      else None)"

fun utf8_encode :: "pystr \<Rightarrow> bytes option" where
  "utf8_encode [] = Some []"
| "utf8_encode (c # cs) =
     (case utf8_encode_char c of
        None \<Rightarrow> None
      | Some bs \<Rightarrow> (case utf8_encode cs of None \<Rightarrow> None | Some rest \<Rightarrow> Some (bs @ rest)))"

definition continuation :: "nat \<Rightarrow> bool" where
  "continuation b \<longleftrightarrow> 128 \<le> b \<and> b \<le> 191"

definition cons_point :: "nat \<Rightarrow> pystr option \<Rightarrow> pystr option" where
  "cons_point c r = (case r of None \<Rightarrow> None | Some str \<Rightarrow> Some (c # str))"

fun utf8_decode :: "bytes \<Rightarrow> pystr option" where
  "utf8_decode [] = Some []"
| "utf8_decode (b # bs) =
     (if b < 128 then cons_point b (utf8_decode bs)
      else if 194 \<le> b \<and> b \<le> 223 then
        (case bs of
           b1 # rest \<Rightarrow>
             if continuation b1
             then cons_point ((b - 192) * 64 + (b1 - 128)) (utf8_decode rest)
             else None
         | _ \<Rightarrow> None)
      else if 224 \<le> b \<and> b \<le> 239 then
        (case bs of
           b1 # b2 # rest \<Rightarrow>
             (let c = (b - 224) * 4096 + (b1 - 128) * 64 + (b2 - 128)
              in if continuation b1 \<and> continuation b2 \<and> 2048 \<le> c \<and>
                    \<not> (55296 \<le> c \<and> c \<le> 57343)
                 then cons_point c (utf8_decode rest)
                 else None)
         | _ \<Rightarrow> None)
      else if 240 \<le> b \<and> b \<le> 244 then
        (case bs of
           b1 # b2 # b3 # rest \<Rightarrow>
             (let c = (b - 240) * 262144 + (b1 - 128) * 4096 + (b2 - 128) * 64 + (b3 - 128)
              in if continuation b1 \<and> continuation b2 \<and> continuation b3 \<and>
                    65536 \<le> c \<and> c < 1114112
                 then cons_point c (utf8_decode rest)
                 else None)
         | _ \<Rightarrow> None)
      else None)"

text \<open>
  \<^verbatim>\<open>base64.b64encode\<close>: three bytes give four characters of the alphabet
  \<^verbatim>\<open>A-Z a-z 0-9 + /\<close>; one or two bytes left over give two or three characters and
  the padding \<^verbatim>\<open>=\<close>.
\<close>

definition b64char :: "nat \<Rightarrow> nat" where
  "b64char i =
     (if i < 26 then 65 + i
      else if i < 52 then 71 + i
      else if i < 62 then i - 4
      else if i = 62 then 43
      else 47)"

fun b64encode :: "bytes \<Rightarrow> bytes" where
  "b64encode [] = []"
| "b64encode [a] = [b64char (a div 4), b64char (a mod 4 * 16), 61, 61]"
| "b64encode [a, b] =
     [b64char (a div 4), b64char (a mod 4 * 16 + b div 16), b64char (b mod 16 * 4), 61]"
| "b64encode (a # b # c # rest) =
     [b64char (a div 4), b64char (a mod 4 * 16 + b div 16),
      b64char (b mod 16 * 4 + c div 64), b64char (c mod 64)] @ b64encode rest"

text \<open>
  \<^verbatim>\<open>base64.b64decode\<close> (not validating), the loop of \<^verbatim>\<open>binascii.a2b_base64\<close>: a
  character outside the alphabet is skipped; a padding character that completes a group
  ends the decoding; text that ends inside a group is refused.
\<close>

definition b64val :: "nat \<Rightarrow> nat option" where
  "b64val c =
     (if 65 \<le> c \<and> c \<le> 90 then Some (c - 65)
      else if 97 \<le> c \<and> c \<le> 122 then Some (c - 71)
      else if 48 \<le> c \<and> c \<le> 57 then Some (c + 4)
      else if c = 43 then Some 62
      else if c = 47 then Some 63
      else None)"

fun a2b_base64 :: "nat \<Rightarrow> nat \<Rightarrow> nat \<Rightarrow> bytes \<Rightarrow> bytes \<Rightarrow> bytes option" where
  "a2b_base64 quad_pos leftchar pads out [] = (if quad_pos \<noteq> 0 then None else Some out)"
| "a2b_base64 quad_pos leftchar pads out (c # cs) =
     (if c = 61 then
        (if quad_pos \<ge> 2 \<and> quad_pos + Suc pads \<ge> 4 then Some out
         else a2b_base64 quad_pos leftchar (if quad_pos \<ge> 2 then Suc pads else pads) out cs)
      else
        (case b64val c of
           None \<Rightarrow> a2b_base64 quad_pos leftchar pads out cs
         | Some this_ch \<Rightarrow>
             if quad_pos = 0 then a2b_base64 1 this_ch 0 out cs
             else if quad_pos = 1
             then a2b_base64 2 (this_ch mod 16) 0 (out @ [leftchar * 4 + this_ch div 16]) cs
             else if quad_pos = 2
             then a2b_base64 3 (this_ch mod 4) 0 (out @ [leftchar * 16 + this_ch div 4]) cs
             else a2b_base64 0 0 0 (out @ [leftchar * 64 + this_ch]) cs))"

definition b64decode :: "bytes \<Rightarrow> bytes option" where
  "b64decode txt = a2b_base64 0 0 0 [] txt"

text \<open>
  The encryption engine (\<^verbatim>\<open>AesGcmEngine\<close> of \<^verbatim>\<open>sqlalchemy_utils\<close>) is a parameter:
  \<open>encrypt\<close> maps the random initialisation vector it draws and the plaintext to the
  ciphertext, \<open>decrypt\<close> gives the plaintext back or nothing, for a text that it refuses.
\<close>

record 'iv engine =
  encrypt :: "'iv \<Rightarrow> pystr \<Rightarrow> pystr"
  decrypt :: "pystr \<Rightarrow> pystr option"

text \<open>
  \<^verbatim>\<open>_dump_secret_values(values, encryption_engine)\<close>; \<open>TEXT_FIELD_MAX_LENGTH\<close> is the
  constant of \<^verbatim>\<open>zenml.constants\<close>, \<open>iv\<close> the initialisation vector that the engine
  draws.
\<close>

definition dump_secret_values :: "nat \<Rightarrow> 'iv \<Rightarrow> (pystr \<times> pystr) list \<Rightarrow> 'iv engine option
    \<Rightarrow> error + nat list" where
  "dump_secret_values TEXT_FIELD_MAX_LENGTH iv values encryption_engine =
     (let serialized_values = json_dumps values in
      case (case encryption_engine of
              None \<Rightarrow>
                (case utf8_encode serialized_values of
                   None \<Rightarrow> Inl UnicodeError
                 | Some encoded \<Rightarrow> Inr (b64encode encoded))
            | Some eng \<Rightarrow> Inr (encrypt eng iv serialized_values)) of
        Inl e \<Rightarrow> Inl e
      | Inr encrypted_values \<Rightarrow>
          if length encrypted_values > TEXT_FIELD_MAX_LENGTH then Inl ValueError
          else Inr encrypted_values)"

text \<open>\<^verbatim>\<open>_load_secret_values(encrypted_values, encryption_engine)\<close>\<close>

definition load_secret_values :: "nat list \<Rightarrow> 'iv engine option
    \<Rightarrow> error + (pystr \<times> pystr) list" where
  "load_secret_values encrypted_values encryption_engine =
     (case (case encryption_engine of
              None \<Rightarrow>
                (case b64decode encrypted_values of
                   None \<Rightarrow> Inl BinasciiError
                 | Some decoded \<Rightarrow>
                     (case utf8_decode decoded of
                        None \<Rightarrow> Inl UnicodeError
                      | Some str \<Rightarrow> Inr str))
            | Some eng \<Rightarrow>
                (case decrypt eng encrypted_values of
                   None \<Rightarrow> Inl InvalidCiphertextError
                 | Some str \<Rightarrow> Inr str)) of
        Inl e \<Rightarrow> Inl e
      | Inr serialized_values \<Rightarrow> json_loads serialized_values)"

text \<open>
  The strings of Python: every element is a code point (below \<^verbatim>\<open>0x110000\<close>). A string
  is \<open>unpaired\<close> when no high surrogate code point is directly followed by a low
  surrogate code point; every string of Unicode text is, as it has no surrogates at all.
\<close>

definition code_points :: "pystr \<Rightarrow> bool" where
  "code_points str \<longleftrightarrow> (\<forall>c\<in>set str. c < 1114112)"

fun unpaired :: "pystr \<Rightarrow> bool" where
  "unpaired [] = True"
| "unpaired [c] = True"
| "unpaired (c # d # cs) = (\<not> (high_surrogate c \<and> low_surrogate d) \<and> unpaired (d # cs))"

text \<open>A dictionary whose keys and values are unpaired strings of code points.\<close>

definition text_pairs :: "(pystr \<times> pystr) list \<Rightarrow> bool" where
  "text_pairs values \<longleftrightarrow>
     (\<forall>(k, v)\<in>set values. code_points k \<and> unpaired k \<and> code_points v \<and> unpaired v)"

subsection \<open>Concrete databases\<close>

text \<open>
  A run with two steps. Step 1 failed and step 2 is cached; both have an output edge to
  artifact 10, the edge of the cached step being stored first. Step 2 has step 1 as
  parent and artifact 11 as input.
\<close>

definition lineage_db :: store where
  "lineage_db = empty_store\<lparr>
     pipeline_runs := [\<lparr> run_id = 100, run_name = ''run'', run_stack_id = None,
                        run_pipeline_id = None \<rparr>],
     step_runs := [\<lparr> step_id = 1, step_name = ''trainer'', step_pipeline_run_id = 100,
                     step_status = FAILED \<rparr>,
                   \<lparr> step_id = 2, step_name = ''evaluator'', step_pipeline_run_id = 100,
                     step_status = CACHED \<rparr>],
     step_run_parents := [\<lparr> parent_id = 1, child_id = 2 \<rparr>],
     step_run_input_artifacts :=
       [\<lparr> in_step_run_id = 2, in_artifact_id = 11, in_name = ''data'' \<rparr>],
     step_run_output_artifacts :=
       [\<lparr> out_step_run_id = 2, out_artifact_id = 10, out_name = ''model'' \<rparr>,
        \<lparr> out_step_run_id = 1, out_artifact_id = 10, out_name = ''model'' \<rparr>],
     artifacts := [\<lparr> artifact_id = 10, artifact_uri = ''s3://a'' \<rparr>,
                   \<lparr> artifact_id = 11, artifact_uri = ''s3://b'' \<rparr>] \<rparr>"

text \<open>No string is read as an identifier.\<close>

definition no_uuid :: uuid_parser where
  "no_uuid str = None"

text \<open>
  A project with three users. Each of the users 1 and 2 owns an orchestrator "default", an artifact store
  "store", a stack "default" and a stack "prod"; those of user 1 are shared, those of
  user 2 are not; user 9 owns nothing. The role "editor" is assigned to user 1 and to team 4 in project 3, and
  to nobody globally.
\<close>

definition sharing_db :: store where
  "sharing_db = empty_store\<lparr>
     projects := [\<lparr> project_id = 3, project_name = ''proj'' \<rparr>],
     users := [\<lparr> user_id = 1, user_name = ''alice'' \<rparr>, \<lparr> user_id = 2, user_name = ''bob'' \<rparr>,
               \<lparr> user_id = 9, user_name = ''carol'' \<rparr>],
     teams := [\<lparr> team_id = 4, team_name = ''crew'' \<rparr>],
     roles := [\<lparr> role_id = 5, role_name = ''editor'' \<rparr>, \<lparr> role_id = 6, role_name = ''admin'' \<rparr>],
     role_permissions := [\<lparr> perm_name = ''read'', perm_role_id = 5 \<rparr>,
                          \<lparr> perm_name = ''write'', perm_role_id = 5 \<rparr>],
     user_role_assignments :=
       [\<lparr> ura_role_id = 5, ura_user_id = 1, ura_project_id = Some 3 \<rparr>],
     team_role_assignments :=
       [\<lparr> tra_role_id = 5, tra_team_id = 4, tra_project_id = Some 3 \<rparr>],
     stack_components :=
       [\<lparr> comp_id = 10, comp_name = ''default'', comp_type = ORCHESTRATOR,
          comp_flavor = ''local'', comp_project = 3, comp_user = 1, comp_is_shared = True \<rparr>,
        \<lparr> comp_id = 11, comp_name = ''default'', comp_type = ORCHESTRATOR,
          comp_flavor = ''local'', comp_project = 3, comp_user = 2, comp_is_shared = False \<rparr>,
        \<lparr> comp_id = 12, comp_name = ''store'', comp_type = ARTIFACT_STORE,
          comp_flavor = ''s3'', comp_project = 3, comp_user = 1, comp_is_shared = True \<rparr>,
        \<lparr> comp_id = 13, comp_name = ''store'', comp_type = ARTIFACT_STORE,
          comp_flavor = ''s3'', comp_project = 3, comp_user = 2, comp_is_shared = False \<rparr>],
     stacks :=
       [\<lparr> stack_id = 20, stack_name = ''default'', stack_project = 3, stack_user = 1,
          stack_is_shared = True \<rparr>,
        \<lparr> stack_id = 21, stack_name = ''default'', stack_project = 3, stack_user = 2,
          stack_is_shared = False \<rparr>,
        \<lparr> stack_id = 22, stack_name = ''prod'', stack_project = 3, stack_user = 1,
          stack_is_shared = True \<rparr>,
        \<lparr> stack_id = 23, stack_name = ''prod'', stack_project = 3, stack_user = 2,
          stack_is_shared = False \<rparr>],
     stack_compositions :=
       [\<lparr> sc_stack_id = 22, sc_component_id = 12 \<rparr>,
        \<lparr> sc_stack_id = 23, sc_component_id = 13 \<rparr>] \<rparr>"

text \<open>
  An engine for the examples: the ciphertext is the plaintext behind the initialisation
  vector. The sample secret has the keys \<^verbatim>\<open>user\<close> and \<^verbatim>\<open>pw\<close>; the password is the
  letter \<^verbatim>\<open>p\<close>, a double quote, the code point 233 and a line feed.
\<close>

definition toy_engine :: "nat engine" where
  "toy_engine = \<lparr> encrypt = (\<lambda>iv str. iv # str),
                   decrypt = (\<lambda>txt. case txt of [] \<Rightarrow> None | iv # str \<Rightarrow> Some str) \<rparr>"

definition sample_secret :: "(pystr \<times> pystr) list" where
  "sample_secret = [([117, 115, 101, 114], [97, 100, 109, 105, 110]),
                    ([112, 119], [112, 34, 233, 10])]"

section \<open>Properties of the run-lineage graph\<close>

subsection \<open>Queries that find a row\<close>

lemma find_Some_ex: "\<exists>x\<in>set xs. P x \<Longrightarrow> \<exists>y. find P xs = Some y"
  by (cases "find P xs") (auto simp: find_None_iff)

lemma set_parent_existing:
  assumes "\<exists>r\<in>set (step_runs (view s)). step_id r = c"
      and "\<exists>r\<in>set (step_runs (view s)). step_id r = p"
      and "\<exists>e\<in>set (step_run_parents (view s)). child_id e = c \<and> parent_id e = p"
  shows "set_run_step_parent_step c p s = Inr s"
proof -
  obtain x where x: "find (\<lambda>r. step_id r = c) (step_runs (view s)) = Some x"
    using find_Some_ex [OF assms(1)] by blast
  obtain y where y: "find (\<lambda>r. step_id r = p) (step_runs (view s)) = Some y"
    using find_Some_ex [OF assms(2)] by blast
  obtain z where z: "find (\<lambda>a. child_id a = c \<and> parent_id a = p)
                       (step_run_parents (view s)) = Some z"
    using find_Some_ex [OF assms(3)] by blast
  show ?thesis by (simp add: set_run_step_parent_step_def x y z)
qed

lemma set_input_existing:
  assumes "\<exists>r\<in>set (step_runs (view s)). step_id r = c"
      and "\<exists>r\<in>set (artifacts (view s)). artifact_id r = a"
      and "\<exists>e\<in>set (step_run_input_artifacts (view s)).
             in_step_run_id e = c \<and> in_artifact_id e = a"
  shows "set_run_step_input_artifact c a n s = Inr s"
proof -
  obtain x where x: "find (\<lambda>r. step_id r = c) (step_runs (view s)) = Some x"
    using find_Some_ex [OF assms(1)] by blast
  obtain y where y: "find (\<lambda>r. artifact_id r = a) (artifacts (view s)) = Some y"
    using find_Some_ex [OF assms(2)] by blast
  obtain z where z: "find (\<lambda>e. in_step_run_id e = c \<and> in_artifact_id e = a)
                       (step_run_input_artifacts (view s)) = Some z"
    using find_Some_ex [OF assms(3)] by blast
  show ?thesis by (simp add: set_run_step_input_artifact_def x y z)
qed

lemma set_output_existing:
  assumes "\<exists>r\<in>set (step_runs (view s)). step_id r = c"
      and "\<exists>r\<in>set (artifacts (view s)). artifact_id r = a"
      and "\<exists>e\<in>set (step_run_output_artifacts (view s)).
             out_step_run_id e = c \<and> out_artifact_id e = a"
  shows "set_run_step_output_artifact c a n s = Inr s"
proof -
  obtain x where x: "find (\<lambda>r. step_id r = c) (step_runs (view s)) = Some x"
    using find_Some_ex [OF assms(1)] by blast
  obtain y where y: "find (\<lambda>r. artifact_id r = a) (artifacts (view s)) = Some y"
    using find_Some_ex [OF assms(2)] by blast
  obtain z where z: "find (\<lambda>e. out_step_run_id e = c \<and> out_artifact_id e = a)
                       (step_run_output_artifacts (view s)) = Some z"
    using find_Some_ex [OF assms(3)] by blast
  show ?thesis by (simp add: set_run_step_output_artifact_def x y z)
qed

subsection \<open>The output loop of an update\<close>

text \<open>One call of the output helper either changes nothing or appends one fresh edge.\<close>

lemma set_output_cases:
  assumes "set_run_step_output_artifact c a n s = Inr s'"
  shows "s' = s \<or>
         (s' = s\<lparr> view := (view s)\<lparr> step_run_output_artifacts :=
                 step_run_output_artifacts (view s) @
                 [\<lparr> out_step_run_id = c, out_artifact_id = a, out_name = n \<rparr>] \<rparr> \<rparr>
          \<and> \<not> (\<exists>e\<in>set (step_run_output_artifacts (view s)).
                   out_step_run_id e = c \<and> out_artifact_id e = a))"
  using assms
  by (auto simp: set_run_step_output_artifact_def find_None_iff split: option.splits)

lemma for_each_outputs_step:
  assumes 1: "set_run_step_output_artifact sid a n s = Inr s1"
      and new: "s' = s1\<lparr> view := (view s1)\<lparr> step_run_output_artifacts :=
                 step_run_output_artifacts (view s1) @ new \<rparr> \<rparr>"
      and p: "\<forall>e\<in>set new. out_step_run_id e = sid \<and> (out_name e, out_artifact_id e) \<in> set xs \<and>
           \<not> (\<exists>e0\<in>set (step_run_output_artifacts (view s1)).
                 out_step_run_id e0 = sid \<and> out_artifact_id e0 = out_artifact_id e)"
      and d: "distinct (map out_artifact_id new)"
  shows "\<exists>new'. s' = s\<lparr> view := (view s)\<lparr> step_run_output_artifacts :=
                 step_run_output_artifacts (view s) @ new' \<rparr> \<rparr> \<and>
        (\<forall>e\<in>set new'. out_step_run_id e = sid \<and>
           (out_name e, out_artifact_id e) \<in> set ((n, a) # xs) \<and>
           \<not> (\<exists>e0\<in>set (step_run_output_artifacts (view s)).
                 out_step_run_id e0 = sid \<and> out_artifact_id e0 = out_artifact_id e)) \<and>
        distinct (map out_artifact_id new')"
  using set_output_cases [OF 1]
proof
  assume "s1 = s"
  with new p d show ?thesis by (intro exI [of _ new]) auto
next
  let ?e = "\<lparr> out_step_run_id = sid, out_artifact_id = a, out_name = n \<rparr>"
  assume c: "s1 = s\<lparr> view := (view s)\<lparr> step_run_output_artifacts :=
               step_run_output_artifacts (view s) @ [?e] \<rparr> \<rparr>
        \<and> \<not> (\<exists>e\<in>set (step_run_output_artifacts (view s)).
                 out_step_run_id e = sid \<and> out_artifact_id e = a)"
  have v: "step_run_output_artifacts (view s1) = step_run_output_artifacts (view s) @ [?e]"
    using c by simp
  have na: "a \<notin> out_artifact_id ` set new" using p v by force
  show ?thesis
  proof (intro exI [of _ "?e # new"] conjI)
    show "s' = s\<lparr> view := (view s)\<lparr> step_run_output_artifacts :=
               step_run_output_artifacts (view s) @ ?e # new \<rparr> \<rparr>"
      using new c by simp
    show "\<forall>e\<in>set (?e # new). out_step_run_id e = sid \<and>
           (out_name e, out_artifact_id e) \<in> set ((n, a) # xs) \<and>
           \<not> (\<exists>e0\<in>set (step_run_output_artifacts (view s)).
                 out_step_run_id e0 = sid \<and> out_artifact_id e0 = out_artifact_id e)"
      using p c v by auto
    show "distinct (map out_artifact_id (?e # new))" using d na by simp
  qed
qed

text \<open>
  The whole loop appends edges of the updated step, one for each artifact of the payload
  that the step was not linked to, and touches nothing else.
\<close>

lemma for_each_outputs_extended:
  "for_each (\<lambda>(n, a). set_run_step_output_artifact sid a n) xs s = Inr s' \<Longrightarrow>
   \<exists>new. s' = s\<lparr> view := (view s)\<lparr> step_run_output_artifacts :=
                 step_run_output_artifacts (view s) @ new \<rparr> \<rparr> \<and>
        (\<forall>e\<in>set new. out_step_run_id e = sid \<and> (out_name e, out_artifact_id e) \<in> set xs \<and>
           \<not> (\<exists>e0\<in>set (step_run_output_artifacts (view s)).
                 out_step_run_id e0 = sid \<and> out_artifact_id e0 = out_artifact_id e)) \<and>
        distinct (map out_artifact_id new)"
proof (induction xs arbitrary: s)
  case Nil
  then show ?case by (intro exI [of _ "[]"]) simp
next
  case (Cons x xs)
  obtain n a where x: "x = (n, a)" by (cases x)
  from Cons.prems x obtain s1 where 1: "set_run_step_output_artifact sid a n s = Inr s1"
     and 2: "for_each (\<lambda>(n, a). set_run_step_output_artifact sid a n) xs s1 = Inr s'"
    by (auto split: sum.splits)
  from Cons.IH [OF 2] obtain new where
        "s' = s1\<lparr> view := (view s1)\<lparr> step_run_output_artifacts :=
                 step_run_output_artifacts (view s1) @ new \<rparr> \<rparr>"
    and "\<forall>e\<in>set new. out_step_run_id e = sid \<and> (out_name e, out_artifact_id e) \<in> set xs \<and>
           \<not> (\<exists>e0\<in>set (step_run_output_artifacts (view s1)).
                 out_step_run_id e0 = sid \<and> out_artifact_id e0 = out_artifact_id e)"
    and "distinct (map out_artifact_id new)"
    by blast
  from for_each_outputs_step [OF 1 this] x show ?case by simp
qed

lemma for_each_all_existing:
  assumes "\<exists>r\<in>set (step_runs (view s)). step_id r = c"
      and "\<forall>(n, a)\<in>set xs. (\<exists>r\<in>set (artifacts (view s)). artifact_id r = a) \<and>
             (\<exists>e\<in>set (step_run_output_artifacts (view s)).
                out_step_run_id e = c \<and> out_artifact_id e = a)"
  shows "for_each (\<lambda>(n, a). set_run_step_output_artifact c a n) xs s = Inr s"
  using assms(2)
proof (induction xs)
  case Nil
  then show ?case by simp
next
  case (Cons x xs)
  obtain n a where x: "x = (n, a)" by (cases x)
  have "set_run_step_output_artifact c a n s = Inr s"
    using Cons.prems x assms(1) by (intro set_output_existing) auto
  then show ?case using Cons x by simp
qed

lemma update_first_keeps_id:
  assumes "find (\<lambda>r. step_id r = i) xs = Some r0" and "step_id u = i"
  shows "\<exists>r\<in>set (update_first (\<lambda>r. step_id r = i) (\<lambda>_. u) xs). step_id r = i"
  using assms by (induction xs) (auto split: if_splits)

lemma update_run_step_reassert:
  assumes st: "\<exists>r\<in>set (step_runs db). step_id r = srm_id m"
      and ed: "\<forall>(n, a)\<in>set (srm_output_artifacts m).
             (\<exists>r\<in>set (artifacts db). artifact_id r = a) \<and>
             (\<exists>e\<in>set (step_run_output_artifacts db).
                out_step_run_id e = srm_id m \<and> out_artifact_id e = a)"
  shows "(\<exists>r. fst (update_run_step m db) = Inr r) \<and>
         step_run_output_artifacts (durable (snd (update_run_step m db))) =
           step_run_output_artifacts db"
proof -
  obtain r0 where r0: "find (\<lambda>r. step_id r = srm_id m) (step_runs db) = Some r0"
    using find_Some_ex [OF st] by blast
  then have id0: "step_id r0 = srm_id m" by (auto simp: find_Some_iff)
  define s1 where "s1 = \<lparr> view = db\<lparr> step_runs :=
                  update_first (\<lambda>r. step_id r = srm_id m) (\<lambda>_. step_from_update_model r0 m)
                    (step_runs db) \<rparr>, durable = db, commits = 0 \<rparr>"
  have a: "\<exists>r\<in>set (step_runs (view s1)). step_id r = srm_id m"
    unfolding s1_def using update_first_keeps_id [OF r0, of "step_from_update_model r0 m"] id0
    by (simp add: step_from_update_model_def)
  have b: "\<forall>(n, a)\<in>set (srm_output_artifacts m).
             (\<exists>r\<in>set (artifacts (view s1)). artifact_id r = a) \<and>
             (\<exists>e\<in>set (step_run_output_artifacts (view s1)).
                out_step_run_id e = srm_id m \<and> out_artifact_id e = a)"
    using ed by (simp add: s1_def)
  have loop: "for_each (\<lambda>(n, a). set_run_step_output_artifact (srm_id m) a n)
                (srm_output_artifacts m) s1 = Inr s1"
    by (rule for_each_all_existing [OF a b])
  have "update_run_step m db =
          (Inr (step_to_model (step_from_update_model r0 m) (srm_parent_step_ids m)
                  (srm_input_artifacts m) (srm_output_artifacts m)), commit s1)"
    using r0 loop by (simp add: update_run_step_def Let_def s1_def Session_def)
  then show ?thesis by (simp add: commit_def s1_def)
qed

subsection \<open>Entries that a payload repeats\<close>

text \<open>
  Once a loop over an edge helper has passed an entry, the edge is stored in the session
  and the rows it joins exist, whatever the loop wrote afterwards; asserting the entry
  once more at the end of the loop is then a call that returns the session unchanged.
\<close>

lemma for_each_append:
  "for_each f (xs @ ys) s = (case for_each f xs s of Inl e \<Rightarrow> Inl e | Inr s' \<Rightarrow> for_each f ys s')"
  by (induction xs arbitrary: s) (auto split: sum.splits)

lemma set_parent_links:
  assumes "set_run_step_parent_step c p s = Inr s1"
  shows "(\<exists>r\<in>set (step_runs (view s1)). step_id r = c) \<and>
     (\<exists>r\<in>set (step_runs (view s1)). step_id r = p) \<and>
     (\<exists>e\<in>set (step_run_parents (view s1)). child_id e = c \<and> parent_id e = p)"
  using assms
  by (auto simp: set_run_step_parent_step_def find_Some_iff split: option.splits)

lemma set_parent_keeps:
  assumes "set_run_step_parent_step c q s = Inr s1"
    and "(\<exists>r\<in>set (step_runs (view s)). step_id r = c) \<and>
     (\<exists>r\<in>set (step_runs (view s)). step_id r = p) \<and>
     (\<exists>e\<in>set (step_run_parents (view s)). child_id e = c \<and> parent_id e = p)"
  shows "(\<exists>r\<in>set (step_runs (view s1)). step_id r = c) \<and>
     (\<exists>r\<in>set (step_runs (view s1)). step_id r = p) \<and>
     (\<exists>e\<in>set (step_run_parents (view s1)). child_id e = c \<and> parent_id e = p)"
  using assms
  by (auto simp: set_run_step_parent_step_def split: option.splits)

lemma for_each_parent_links:
  assumes "for_each (set_run_step_parent_step c) ps s = Inr s'" and "p \<in> set ps"
  shows "set_run_step_parent_step c p s' = Inr s'"
proof -
  have keep: "\<And>s s'. for_each (set_run_step_parent_step c) ps s = Inr s' \<Longrightarrow>
     (\<exists>r\<in>set (step_runs (view s)). step_id r = c) \<and>
     (\<exists>r\<in>set (step_runs (view s)). step_id r = p) \<and>
     (\<exists>e\<in>set (step_run_parents (view s)). child_id e = c \<and> parent_id e = p) \<Longrightarrow>
     (\<exists>r\<in>set (step_runs (view s')). step_id r = c) \<and>
     (\<exists>r\<in>set (step_runs (view s')). step_id r = p) \<and>
     (\<exists>e\<in>set (step_run_parents (view s')). child_id e = c \<and> parent_id e = p)" for ps
  proof (induction ps)
    case Nil
    then show ?case by simp
  next
    case (Cons q qs)
    from Cons.prems(1) obtain s1 where 1: "set_run_step_parent_step c q s = Inr s1"
      and 2: "for_each (set_run_step_parent_step c) qs s1 = Inr s'"
      by (auto split: sum.splits)
    from Cons.IH [OF 2 set_parent_keeps [OF 1 Cons.prems(2)]] show ?case .
  qed
  from assms have "(\<exists>r\<in>set (step_runs (view s')). step_id r = c) \<and>
     (\<exists>r\<in>set (step_runs (view s')). step_id r = p) \<and>
     (\<exists>e\<in>set (step_run_parents (view s')). child_id e = c \<and> parent_id e = p)"
  proof (induction ps arbitrary: s)
    case Nil
    then show ?case by simp
  next
    case (Cons q qs)
    from Cons.prems(1) obtain s1 where 1: "set_run_step_parent_step c q s = Inr s1"
      and 2: "for_each (set_run_step_parent_step c) qs s1 = Inr s'"
      by (auto split: sum.splits)
    show ?case
    proof (cases "p = q")
      case True
      from keep [OF 2 set_parent_links [OF 1 [folded True]]] show ?thesis .
    next
      case False
      with Cons.prems(2) have "p \<in> set qs" by simp
      from Cons.IH [OF 2 this] show ?thesis .
    qed
  qed
  then show ?thesis by (intro set_parent_existing) blast+
qed

lemma for_each_parent_repeated:
  assumes "p \<in> set ps"
  shows "for_each (set_run_step_parent_step c) (ps @ [p]) s =
         for_each (set_run_step_parent_step c) ps s"
  using for_each_parent_links [OF _ assms, of c s]
  by (auto simp: for_each_append split: sum.splits)


lemma set_input_links:
  assumes "set_run_step_input_artifact c a n s = Inr s1"
  shows "(\<exists>r\<in>set (step_runs (view s1)). step_id r = c) \<and>
     (\<exists>r\<in>set (artifacts (view s1)). artifact_id r = a) \<and>
     (\<exists>e\<in>set (step_run_input_artifacts (view s1)). in_step_run_id e = c \<and> in_artifact_id e = a)"
  using assms
  by (auto simp: set_run_step_input_artifact_def find_Some_iff split: option.splits)

lemma set_input_keeps:
  assumes "set_run_step_input_artifact c b n s = Inr s1"
    and "(\<exists>r\<in>set (step_runs (view s)). step_id r = c) \<and>
     (\<exists>r\<in>set (artifacts (view s)). artifact_id r = a) \<and>
     (\<exists>e\<in>set (step_run_input_artifacts (view s)). in_step_run_id e = c \<and> in_artifact_id e = a)"
  shows "(\<exists>r\<in>set (step_runs (view s1)). step_id r = c) \<and>
     (\<exists>r\<in>set (artifacts (view s1)). artifact_id r = a) \<and>
     (\<exists>e\<in>set (step_run_input_artifacts (view s1)). in_step_run_id e = c \<and> in_artifact_id e = a)"
  using assms
  by (auto simp: set_run_step_input_artifact_def split: option.splits)

lemma for_each_input_keeps:
  assumes "for_each (\<lambda>(n, a). set_run_step_input_artifact c a n) xs s = Inr s'"
    and "(\<exists>r\<in>set (step_runs (view s)). step_id r = c) \<and>
     (\<exists>r\<in>set (artifacts (view s)). artifact_id r = a) \<and>
     (\<exists>e\<in>set (step_run_input_artifacts (view s)). in_step_run_id e = c \<and> in_artifact_id e = a)"
  shows "(\<exists>r\<in>set (step_runs (view s')). step_id r = c) \<and>
     (\<exists>r\<in>set (artifacts (view s')). artifact_id r = a) \<and>
     (\<exists>e\<in>set (step_run_input_artifacts (view s')). in_step_run_id e = c \<and> in_artifact_id e = a)"
  using assms
proof (induction xs arbitrary: s)
  case Nil
  then show ?case by simp
next
  case (Cons x xs)
  obtain n b where x: "x = (n, b)" by (cases x)
  from Cons.prems(1) x obtain s1 where 1: "set_run_step_input_artifact c b n s = Inr s1"
    and 2: "for_each (\<lambda>(n, a). set_run_step_input_artifact c a n) xs s1 = Inr s'"
    by (auto split: sum.splits)
  from Cons.IH [OF 2 set_input_keeps [OF 1 Cons.prems(2)]] show ?case .
qed

lemma for_each_input_links:
  assumes "for_each (\<lambda>(n, a). set_run_step_input_artifact c a n) xs s = Inr s'" and "a \<in> snd ` set xs"
  shows "set_run_step_input_artifact c a n' s' = Inr s'"
proof -
  from assms have "(\<exists>r\<in>set (step_runs (view s')). step_id r = c) \<and>
     (\<exists>r\<in>set (artifacts (view s')). artifact_id r = a) \<and>
     (\<exists>e\<in>set (step_run_input_artifacts (view s')). in_step_run_id e = c \<and> in_artifact_id e = a)"
  proof (induction xs arbitrary: s)
    case Nil
    then show ?case by simp
  next
    case (Cons x xs)
    obtain n b where x: "x = (n, b)" by (cases x)
    from Cons.prems(1) x obtain s1 where 1: "set_run_step_input_artifact c b n s = Inr s1"
      and 2: "for_each (\<lambda>(n, a). set_run_step_input_artifact c a n) xs s1 = Inr s'"
      by (auto split: sum.splits)
    show ?case
    proof (cases "a = b")
      case True
      from for_each_input_keeps [OF 2 set_input_links [OF 1 [folded True]]] show ?thesis .
    next
      case False
      with Cons.prems(2) x have "a \<in> snd ` set xs" by auto
      from Cons.IH [OF 2 this] show ?thesis .
    qed
  qed
  then show ?thesis by (intro set_input_existing) blast+
qed

lemma for_each_input_repeated:
  assumes "a \<in> snd ` set xs"
  shows "for_each (\<lambda>(n, a). set_run_step_input_artifact c a n) (xs @ [(n', a)]) s = for_each (\<lambda>(n, a). set_run_step_input_artifact c a n) xs s"
  using for_each_input_links [OF _ assms, of c s]
  by (auto simp: for_each_append split: sum.splits)

lemma set_output_links:
  assumes "set_run_step_output_artifact c a n s = Inr s1"
  shows "(\<exists>r\<in>set (step_runs (view s1)). step_id r = c) \<and>
     (\<exists>r\<in>set (artifacts (view s1)). artifact_id r = a) \<and>
     (\<exists>e\<in>set (step_run_output_artifacts (view s1)). out_step_run_id e = c \<and> out_artifact_id e = a)"
  using assms
  by (auto simp: set_run_step_output_artifact_def find_Some_iff split: option.splits)

lemma set_output_keeps:
  assumes "set_run_step_output_artifact c b n s = Inr s1"
    and "(\<exists>r\<in>set (step_runs (view s)). step_id r = c) \<and>
     (\<exists>r\<in>set (artifacts (view s)). artifact_id r = a) \<and>
     (\<exists>e\<in>set (step_run_output_artifacts (view s)). out_step_run_id e = c \<and> out_artifact_id e = a)"
  shows "(\<exists>r\<in>set (step_runs (view s1)). step_id r = c) \<and>
     (\<exists>r\<in>set (artifacts (view s1)). artifact_id r = a) \<and>
     (\<exists>e\<in>set (step_run_output_artifacts (view s1)). out_step_run_id e = c \<and> out_artifact_id e = a)"
  using assms
  by (auto simp: set_run_step_output_artifact_def split: option.splits)

lemma for_each_output_keeps:
  assumes "for_each (\<lambda>(n, a). set_run_step_output_artifact c a n) xs s = Inr s'"
    and "(\<exists>r\<in>set (step_runs (view s)). step_id r = c) \<and>
     (\<exists>r\<in>set (artifacts (view s)). artifact_id r = a) \<and>
     (\<exists>e\<in>set (step_run_output_artifacts (view s)). out_step_run_id e = c \<and> out_artifact_id e = a)"
  shows "(\<exists>r\<in>set (step_runs (view s')). step_id r = c) \<and>
     (\<exists>r\<in>set (artifacts (view s')). artifact_id r = a) \<and>
     (\<exists>e\<in>set (step_run_output_artifacts (view s')). out_step_run_id e = c \<and> out_artifact_id e = a)"
  using assms
proof (induction xs arbitrary: s)
  case Nil
  then show ?case by simp
next
  case (Cons x xs)
  obtain n b where x: "x = (n, b)" by (cases x)
  from Cons.prems(1) x obtain s1 where 1: "set_run_step_output_artifact c b n s = Inr s1"
    and 2: "for_each (\<lambda>(n, a). set_run_step_output_artifact c a n) xs s1 = Inr s'"
    by (auto split: sum.splits)
  from Cons.IH [OF 2 set_output_keeps [OF 1 Cons.prems(2)]] show ?case .
qed

lemma for_each_output_links:
  assumes "for_each (\<lambda>(n, a). set_run_step_output_artifact c a n) xs s = Inr s'" and "a \<in> snd ` set xs"
  shows "set_run_step_output_artifact c a n' s' = Inr s'"
proof -
  from assms have "(\<exists>r\<in>set (step_runs (view s')). step_id r = c) \<and>
     (\<exists>r\<in>set (artifacts (view s')). artifact_id r = a) \<and>
     (\<exists>e\<in>set (step_run_output_artifacts (view s')). out_step_run_id e = c \<and> out_artifact_id e = a)"
  proof (induction xs arbitrary: s)
    case Nil
    then show ?case by simp
  next
    case (Cons x xs)
    obtain n b where x: "x = (n, b)" by (cases x)
    from Cons.prems(1) x obtain s1 where 1: "set_run_step_output_artifact c b n s = Inr s1"
      and 2: "for_each (\<lambda>(n, a). set_run_step_output_artifact c a n) xs s1 = Inr s'"
      by (auto split: sum.splits)
    show ?case
    proof (cases "a = b")
      case True
      from for_each_output_keeps [OF 2 set_output_links [OF 1 [folded True]]] show ?thesis .
    next
      case False
      with Cons.prems(2) x have "a \<in> snd ` set xs" by auto
      from Cons.IH [OF 2 this] show ?thesis .
    qed
  qed
  then show ?thesis by (intro set_output_existing) blast+
qed

lemma for_each_output_repeated:
  assumes "a \<in> snd ` set xs"
  shows "for_each (\<lambda>(n, a). set_run_step_output_artifact c a n) (xs @ [(n', a)]) s = for_each (\<lambda>(n, a). set_run_step_output_artifact c a n) xs s"
  using for_each_output_links [OF _ assms, of c s]
  by (auto simp: for_each_append split: sum.splits)

lemma create_run_step_repeated_parent:
  assumes "p \<in> set (srm_parent_step_ids m)"
  shows "snd (create_run_step (m\<lparr> srm_parent_step_ids := srm_parent_step_ids m @ [p] \<rparr>) db) =
         snd (create_run_step m db)"
    and "fst (create_run_step (m\<lparr> srm_parent_step_ids := srm_parent_step_ids m @ [p] \<rparr>) db) =
           Inl e \<longleftrightarrow> fst (create_run_step m db) = Inl e"
  by (simp_all add: create_run_step_def Let_def for_each_parent_repeated [OF assms]
        step_from_create_model_def raise_def split: option.splits sum.splits)

lemma create_run_step_repeated_input:
  assumes "a \<in> snd ` set (srm_input_artifacts m)"
  shows "snd (create_run_step (m\<lparr> srm_input_artifacts := srm_input_artifacts m @ [(n, a)] \<rparr>) db) =
         snd (create_run_step m db)"
    and "fst (create_run_step (m\<lparr> srm_input_artifacts := srm_input_artifacts m @ [(n, a)] \<rparr>) db) =
           Inl e \<longleftrightarrow> fst (create_run_step m db) = Inl e"
  by (simp_all add: create_run_step_def Let_def for_each_input_repeated [OF assms]
        step_from_create_model_def raise_def split: option.splits sum.splits)

lemma create_run_step_repeated_output:
  assumes "a \<in> snd ` set (srm_output_artifacts m)"
  shows "snd (create_run_step (m\<lparr> srm_output_artifacts := srm_output_artifacts m @ [(n, a)] \<rparr>) db) =
         snd (create_run_step m db)"
    and "fst (create_run_step (m\<lparr> srm_output_artifacts := srm_output_artifacts m @ [(n, a)] \<rparr>) db) =
           Inl e \<longleftrightarrow> fst (create_run_step m db) = Inl e"
  by (simp_all add: create_run_step_def Let_def for_each_output_repeated [OF assms]
        step_from_create_model_def raise_def split: option.splits sum.splits)

lemma create_run_step_stored:
  assumes "\<exists>r\<in>set (pipeline_runs db). run_id r = srm_pipeline_run_id m"
      and "\<exists>r\<in>set (step_runs db). step_name r = srm_name m \<and>
             step_pipeline_run_id r = srm_pipeline_run_id m"
  shows "create_run_step m db = (Inl EntityExistsError, Session db)"
proof -
  obtain x where x: "find (\<lambda>r. run_id r = srm_pipeline_run_id m) (pipeline_runs db) = Some x"
    using find_Some_ex [OF assms(1)] by blast
  obtain y where y: "find (\<lambda>r. step_name r = srm_name m \<and>
             step_pipeline_run_id r = srm_pipeline_run_id m) (step_runs db) = Some y"
    using find_Some_ex [OF assms(2)] by blast
  show ?thesis by (simp add: create_run_step_def x y raise_def Session_def rollback_def)
qed

subsection \<open>Idempotent edges\<close>

text \<open>
  Claim C6 as stated fails for \<open>create_run_step\<close>. In the two-step run, step 2 is stored
  with its parent edge, its input edge and its output edge. Creating it again with the
  same edges does not reach the edges: the name of the step is taken in the run, and the
  call raises \<open>EntityExistsError\<close>.
\<close>

theorem retried_create_run_step_counterexample:
  "fst (create_run_step
          \<lparr> srm_id = 2, srm_name = ''evaluator'', srm_pipeline_run_id = 100,
            srm_status = CACHED, srm_parent_step_ids = [1],
            srm_input_artifacts = [(''data'', 11)],
            srm_output_artifacts = [(''model'', 10)] \<rparr> lineage_db) = Inl EntityExistsError \<and>
   step_run_parents lineage_db = [\<lparr> parent_id = 1, child_id = 2 \<rparr>] \<and>
   step_run_input_artifacts lineage_db =
     [\<lparr> in_step_run_id = 2, in_artifact_id = 11, in_name = ''data'' \<rparr>] \<and>
   step_run_output_artifacts lineage_db =
     [\<lparr> out_step_run_id = 2, out_artifact_id = 10, out_name = ''model'' \<rparr>,
      \<lparr> out_step_run_id = 1, out_artifact_id = 10, out_name = ''model'' \<rparr>]"
  by (simp add: create_run_step_def lineage_db_def empty_store_def Session_def raise_def)

text \<open>
  Claim C6, amended. Re-asserting an edge that the lineage graph already has, between
  rows that exist, raises nothing and changes nothing wherever the code reaches the edge
  helpers.
  \<^item> Each of the three helpers returns the session it was given, for a parent edge, an
    input edge and an output edge alike.
  \<^item> \<open>update_run_step\<close>, which asserts output edges only: when every artifact of the
    payload is already an output of the step, the update succeeds and the output edge
    table after the call is the one before it.
  \<^item> \<open>create_run_step\<close> reaches the helpers only for a step whose name is new in its
    run. There an edge is asserted again when the payload repeats an entry: a parent id,
    an input artifact or an output artifact that comes once more at the end of its list
    leaves the call with the same session (the same tables, the same commit) and the
    same error, if any, as the payload without the repetition.
  \<^item> \<open>create_run_step\<close> of a step whose name is stored in its run raises
    \<open>EntityExistsError\<close> before any edge is looked at, and leaves the database as it was.
\<close>

theorem reasserted_edge_is_noop:
  "(pe \<in> set (step_run_parents (view s)) \<and>
      (\<exists>r\<in>set (step_runs (view s)). step_id r = child_id pe) \<and>
      (\<exists>r\<in>set (step_runs (view s)). step_id r = parent_id pe)
      \<longrightarrow> set_run_step_parent_step (child_id pe) (parent_id pe) s = Inr s) \<and>
   (ie \<in> set (step_run_input_artifacts (view s)) \<and>
      (\<exists>r\<in>set (step_runs (view s)). step_id r = in_step_run_id ie) \<and>
      (\<exists>r\<in>set (artifacts (view s)). artifact_id r = in_artifact_id ie)
      \<longrightarrow> set_run_step_input_artifact (in_step_run_id ie) (in_artifact_id ie) (in_name ie) s
            = Inr s) \<and>
   (oe \<in> set (step_run_output_artifacts (view s)) \<and>
      (\<exists>r\<in>set (step_runs (view s)). step_id r = out_step_run_id oe) \<and>
      (\<exists>r\<in>set (artifacts (view s)). artifact_id r = out_artifact_id oe)
      \<longrightarrow> set_run_step_output_artifact (out_step_run_id oe) (out_artifact_id oe) (out_name oe) s
            = Inr s) \<and>
   ((\<exists>r\<in>set (step_runs db). step_id r = srm_id m) \<and>
    (\<forall>(n, a)\<in>set (srm_output_artifacts m).
        (\<exists>r\<in>set (artifacts db). artifact_id r = a) \<and>
        (\<exists>e\<in>set (step_run_output_artifacts db).
           out_step_run_id e = srm_id m \<and> out_artifact_id e = a))
      \<longrightarrow> (\<exists>r. fst (update_run_step m db) = Inr r) \<and>
          step_run_output_artifacts (durable (snd (update_run_step m db))) =
            step_run_output_artifacts db) \<and>
   (p \<in> set (srm_parent_step_ids c)
      \<longrightarrow> snd (create_run_step (c\<lparr> srm_parent_step_ids := srm_parent_step_ids c @ [p] \<rparr>) db) =
            snd (create_run_step c db) \<and>
          (\<forall>e. fst (create_run_step
                       (c\<lparr> srm_parent_step_ids := srm_parent_step_ids c @ [p] \<rparr>) db) = Inl e
                \<longleftrightarrow> fst (create_run_step c db) = Inl e)) \<and>
   (ia \<in> snd ` set (srm_input_artifacts c)
      \<longrightarrow> snd (create_run_step
                 (c\<lparr> srm_input_artifacts := srm_input_artifacts c @ [(iname, ia)] \<rparr>) db) =
            snd (create_run_step c db) \<and>
          (\<forall>e. fst (create_run_step
                       (c\<lparr> srm_input_artifacts := srm_input_artifacts c @ [(iname, ia)] \<rparr>) db) =
                    Inl e
                \<longleftrightarrow> fst (create_run_step c db) = Inl e)) \<and>
   (oa \<in> snd ` set (srm_output_artifacts c)
      \<longrightarrow> snd (create_run_step
                 (c\<lparr> srm_output_artifacts := srm_output_artifacts c @ [(oname, oa)] \<rparr>) db) =
            snd (create_run_step c db) \<and>
          (\<forall>e. fst (create_run_step
                       (c\<lparr> srm_output_artifacts := srm_output_artifacts c @ [(oname, oa)] \<rparr>) db) =
                    Inl e
                \<longleftrightarrow> fst (create_run_step c db) = Inl e)) \<and>
   ((\<exists>r\<in>set (pipeline_runs db). run_id r = srm_pipeline_run_id c) \<and>
    (\<exists>r\<in>set (step_runs db). step_name r = srm_name c \<and>
        step_pipeline_run_id r = srm_pipeline_run_id c)
      \<longrightarrow> create_run_step c db = (Inl EntityExistsError, Session db))"
proof (intro conjI impI allI)
  assume "pe \<in> set (step_run_parents (view s)) \<and>
      (\<exists>r\<in>set (step_runs (view s)). step_id r = child_id pe) \<and>
      (\<exists>r\<in>set (step_runs (view s)). step_id r = parent_id pe)"
  then show "set_run_step_parent_step (child_id pe) (parent_id pe) s = Inr s"
    by (intro set_parent_existing) auto
next
  assume "ie \<in> set (step_run_input_artifacts (view s)) \<and>
      (\<exists>r\<in>set (step_runs (view s)). step_id r = in_step_run_id ie) \<and>
      (\<exists>r\<in>set (artifacts (view s)). artifact_id r = in_artifact_id ie)"
  then show "set_run_step_input_artifact (in_step_run_id ie) (in_artifact_id ie) (in_name ie) s
            = Inr s"
    by (intro set_input_existing) auto
next
  assume "oe \<in> set (step_run_output_artifacts (view s)) \<and>
      (\<exists>r\<in>set (step_runs (view s)). step_id r = out_step_run_id oe) \<and>
      (\<exists>r\<in>set (artifacts (view s)). artifact_id r = out_artifact_id oe)"
  then show "set_run_step_output_artifact (out_step_run_id oe) (out_artifact_id oe) (out_name oe) s
            = Inr s"
    by (intro set_output_existing) auto
next
  assume h: "(\<exists>r\<in>set (step_runs db). step_id r = srm_id m) \<and>
    (\<forall>(n, a)\<in>set (srm_output_artifacts m).
        (\<exists>r\<in>set (artifacts db). artifact_id r = a) \<and>
        (\<exists>e\<in>set (step_run_output_artifacts db).
           out_step_run_id e = srm_id m \<and> out_artifact_id e = a))"
  from update_run_step_reassert [OF conjunct1 [OF h] conjunct2 [OF h]]
  show "\<exists>r. fst (update_run_step m db) = Inr r"
    and "step_run_output_artifacts (durable (snd (update_run_step m db))) =
            step_run_output_artifacts db"
    by blast+
next
  assume a: "p \<in> set (srm_parent_step_ids c)"
  show "snd (create_run_step (c\<lparr> srm_parent_step_ids := srm_parent_step_ids c @ [p] \<rparr>) db) =
            snd (create_run_step c db)"
    by (rule create_run_step_repeated_parent(1) [OF a])
  fix e
  show "fst (create_run_step
               (c\<lparr> srm_parent_step_ids := srm_parent_step_ids c @ [p] \<rparr>) db) = Inl e
        \<longleftrightarrow> fst (create_run_step c db) = Inl e"
    by (rule create_run_step_repeated_parent(2) [OF a])
next
  assume a: "ia \<in> snd ` set (srm_input_artifacts c)"
  show "snd (create_run_step
               (c\<lparr> srm_input_artifacts := srm_input_artifacts c @ [(iname, ia)] \<rparr>) db) =
            snd (create_run_step c db)"
    by (rule create_run_step_repeated_input(1) [OF a])
  fix e
  show "fst (create_run_step
               (c\<lparr> srm_input_artifacts := srm_input_artifacts c @ [(iname, ia)] \<rparr>) db) = Inl e
        \<longleftrightarrow> fst (create_run_step c db) = Inl e"
    by (rule create_run_step_repeated_input(2) [OF a])
next
  assume a: "oa \<in> snd ` set (srm_output_artifacts c)"
  show "snd (create_run_step
               (c\<lparr> srm_output_artifacts := srm_output_artifacts c @ [(oname, oa)] \<rparr>) db) =
            snd (create_run_step c db)"
    by (rule create_run_step_repeated_output(1) [OF a])
  fix e
  show "fst (create_run_step
               (c\<lparr> srm_output_artifacts := srm_output_artifacts c @ [(oname, oa)] \<rparr>) db) = Inl e
        \<longleftrightarrow> fst (create_run_step c db) = Inl e"
    by (rule create_run_step_repeated_output(2) [OF a])
next
  assume "(\<exists>r\<in>set (pipeline_runs db). run_id r = srm_pipeline_run_id c) \<and>
    (\<exists>r\<in>set (step_runs db). step_name r = srm_name c \<and>
        step_pipeline_run_id r = srm_pipeline_run_id c)"
  then show "create_run_step c db = (Inl EntityExistsError, Session db)"
    by (intro create_run_step_stored) blast+
qed

text \<open>
  The theorem at the two-step run. The parent edge 1 \<rightarrow> 2, the input edge of step 2 and
  the output edge of step 2 are asserted again through the helpers, and step 2 is updated
  with the output it already has. A step 3 is created with step 1 named twice as parent,
  artifact 11 given under two input names and artifact 10 under two output names: one
  edge of each kind is stored for it. Creating step 2 again is refused.
\<close>

theorem reasserted_edge_is_noop_witness:
  "set_run_step_parent_step 2 1 (Session lineage_db) = Inr (Session lineage_db) \<and>
   set_run_step_input_artifact 2 11 ''data'' (Session lineage_db) = Inr (Session lineage_db) \<and>
   set_run_step_output_artifact 2 10 ''model'' (Session lineage_db) = Inr (Session lineage_db) \<and>
   (\<exists>r. fst (update_run_step
        \<lparr> srm_id = 2, srm_name = ''evaluator'', srm_pipeline_run_id = 100,
          srm_status = CACHED, srm_parent_step_ids = [1], srm_input_artifacts = [(''data'', 11)],
          srm_output_artifacts = [(''model'', 10)] \<rparr> lineage_db) = Inr r) \<and>
   length (step_run_output_artifacts (durable (snd (update_run_step
        \<lparr> srm_id = 2, srm_name = ''evaluator'', srm_pipeline_run_id = 100,
          srm_status = CACHED, srm_parent_step_ids = [1], srm_input_artifacts = [(''data'', 11)],
          srm_output_artifacts = [(''model'', 10)] \<rparr> lineage_db)))) = 2 \<and>
   step_run_parents (durable (snd (create_run_step
        \<lparr> srm_id = 3, srm_name = ''deployer'', srm_pipeline_run_id = 100,
          srm_status = RUNNING, srm_parent_step_ids = [1, 1],
          srm_input_artifacts = [(''data'', 11)],
          srm_output_artifacts = [(''model'', 10)] \<rparr> lineage_db))) =
     [\<lparr> parent_id = 1, child_id = 2 \<rparr>, \<lparr> parent_id = 1, child_id = 3 \<rparr>] \<and>
   step_run_input_artifacts (durable (snd (create_run_step
        \<lparr> srm_id = 3, srm_name = ''deployer'', srm_pipeline_run_id = 100,
          srm_status = RUNNING, srm_parent_step_ids = [1],
          srm_input_artifacts = [(''data'', 11), (''copy'', 11)],
          srm_output_artifacts = [(''model'', 10)] \<rparr> lineage_db))) =
     [\<lparr> in_step_run_id = 2, in_artifact_id = 11, in_name = ''data'' \<rparr>,
      \<lparr> in_step_run_id = 3, in_artifact_id = 11, in_name = ''data'' \<rparr>] \<and>
   step_run_output_artifacts (durable (snd (create_run_step
        \<lparr> srm_id = 3, srm_name = ''deployer'', srm_pipeline_run_id = 100,
          srm_status = RUNNING, srm_parent_step_ids = [1],
          srm_input_artifacts = [(''data'', 11)],
          srm_output_artifacts = [(''model'', 10), (''copy'', 10)] \<rparr> lineage_db))) =
     [\<lparr> out_step_run_id = 2, out_artifact_id = 10, out_name = ''model'' \<rparr>,
      \<lparr> out_step_run_id = 1, out_artifact_id = 10, out_name = ''model'' \<rparr>,
      \<lparr> out_step_run_id = 3, out_artifact_id = 10, out_name = ''model'' \<rparr>] \<and>
   create_run_step
        \<lparr> srm_id = 2, srm_name = ''evaluator'', srm_pipeline_run_id = 100,
          srm_status = CACHED, srm_parent_step_ids = [1], srm_input_artifacts = [(''data'', 11)],
          srm_output_artifacts = [(''model'', 10)] \<rparr> lineage_db =
     (Inl EntityExistsError, Session lineage_db)"
proof -
  let ?m2 = "\<lparr> srm_id = 2, srm_name = ''evaluator'', srm_pipeline_run_id = 100,
          srm_status = CACHED, srm_parent_step_ids = [1], srm_input_artifacts = [(''data'', 11)],
          srm_output_artifacts = [(''model'', 10)] \<rparr>"
  let ?m3 = "\<lparr> srm_id = 3, srm_name = ''deployer'', srm_pipeline_run_id = 100,
          srm_status = RUNNING, srm_parent_step_ids = [1],
          srm_input_artifacts = [(''data'', 11)],
          srm_output_artifacts = [(''model'', 10)] \<rparr>"
  have once: "durable (snd (create_run_step ?m3 lineage_db)) = lineage_db\<lparr>
      step_runs := step_runs lineage_db @ [\<lparr> step_id = 3, step_name = ''deployer'',
                     step_pipeline_run_id = 100, step_status = RUNNING \<rparr>],
      step_run_parents := [\<lparr> parent_id = 1, child_id = 2 \<rparr>, \<lparr> parent_id = 1, child_id = 3 \<rparr>],
      step_run_input_artifacts :=
        [\<lparr> in_step_run_id = 2, in_artifact_id = 11, in_name = ''data'' \<rparr>,
         \<lparr> in_step_run_id = 3, in_artifact_id = 11, in_name = ''data'' \<rparr>],
      step_run_output_artifacts :=
        [\<lparr> out_step_run_id = 2, out_artifact_id = 10, out_name = ''model'' \<rparr>,
         \<lparr> out_step_run_id = 1, out_artifact_id = 10, out_name = ''model'' \<rparr>,
         \<lparr> out_step_run_id = 3, out_artifact_id = 10, out_name = ''model'' \<rparr>] \<rparr>"
    by (simp add: create_run_step_def lineage_db_def empty_store_def Session_def Let_def
          set_run_step_parent_step_def set_run_step_input_artifact_def
          set_run_step_output_artifact_def step_from_create_model_def commit_def)
  from reasserted_edge_is_noop [of "\<lparr> parent_id = 1, child_id = 2 \<rparr>" "Session lineage_db"
      "\<lparr> in_step_run_id = 2, in_artifact_id = 11, in_name = ''data'' \<rparr>"
      "\<lparr> out_step_run_id = 2, out_artifact_id = 10, out_name = ''model'' \<rparr>"
      lineage_db ?m2 1 ?m3 11 "''copy''" 10 "''copy''"]
  have helpers: "set_run_step_parent_step 2 1 (Session lineage_db) = Inr (Session lineage_db)"
      "set_run_step_input_artifact 2 11 ''data'' (Session lineage_db) = Inr (Session lineage_db)"
      "set_run_step_output_artifact 2 10 ''model'' (Session lineage_db) = Inr (Session lineage_db)"
    and upd: "\<exists>r. fst (update_run_step ?m2 lineage_db) = Inr r"
      "step_run_output_artifacts (durable (snd (update_run_step ?m2 lineage_db))) =
         step_run_output_artifacts lineage_db"
    and rep: "snd (create_run_step (?m3\<lparr> srm_parent_step_ids := [1, 1] \<rparr>) lineage_db) =
                snd (create_run_step ?m3 lineage_db)"
      "snd (create_run_step (?m3\<lparr> srm_input_artifacts := [(''data'', 11), (''copy'', 11)] \<rparr>)
              lineage_db) = snd (create_run_step ?m3 lineage_db)"
      "snd (create_run_step (?m3\<lparr> srm_output_artifacts := [(''model'', 10), (''copy'', 10)] \<rparr>)
              lineage_db) = snd (create_run_step ?m3 lineage_db)"
    by (simp_all add: lineage_db_def empty_store_def Session_def)
  from reasserted_edge_is_noop [of _ _ _ _ lineage_db _ _ ?m2]
  have again: "create_run_step ?m2 lineage_db = (Inl EntityExistsError, Session lineage_db)"
    by (simp add: lineage_db_def empty_store_def)
  from helpers upd rep once again show ?thesis
    by (simp add: lineage_db_def empty_store_def)
qed

subsection \<open>The frame of an update\<close>

text \<open>
  Claim C7. Whatever parent step ids and input artifacts the payload of
  \<open>update_run_step\<close> carries, and whether the call succeeds or raises, the parent edge
  table and the input edge table after the call are the ones before it. The output edge
  table only grows at its end: every added edge belongs to the updated step, links an
  artifact that the payload names as output and that the step was not linked to before,
  and no artifact is added twice.
\<close>

theorem update_run_step_frame:
  "step_run_parents (durable (snd (update_run_step m db))) = step_run_parents db \<and>
   step_run_input_artifacts (durable (snd (update_run_step m db))) =
     step_run_input_artifacts db \<and>
   (\<exists>new. step_run_output_artifacts (durable (snd (update_run_step m db))) =
             step_run_output_artifacts db @ new \<and>
      (\<forall>e\<in>set new. out_step_run_id e = srm_id m \<and>
           (out_name e, out_artifact_id e) \<in> set (srm_output_artifacts m) \<and>
           \<not> (\<exists>e0\<in>set (step_run_output_artifacts db).
                 out_step_run_id e0 = srm_id m \<and> out_artifact_id e0 = out_artifact_id e)) \<and>
      distinct (map out_artifact_id new))"
proof (cases "find (\<lambda>r. step_id r = srm_id m) (step_runs db)")
  case None
  then have "durable (snd (update_run_step m db)) = db"
    by (simp add: update_run_step_def Session_def raise_def rollback_def)
  then show ?thesis by simp
next
  case (Some r)
  define s1 where "s1 = \<lparr> view = db\<lparr> step_runs :=
                  update_first (\<lambda>r. step_id r = srm_id m) (\<lambda>_. step_from_update_model r m)
                    (step_runs db) \<rparr>, durable = db, commits = 0 \<rparr>"
  let ?loop = "for_each (\<lambda>(output_name, art).
                 set_run_step_output_artifact (srm_id m) art output_name)
               (srm_output_artifacts m) s1"
  have s1: "durable s1 = db" "step_run_parents (view s1) = step_run_parents db"
    "step_run_input_artifacts (view s1) = step_run_input_artifacts db"
    "step_run_output_artifacts (view s1) = step_run_output_artifacts db"
    by (simp_all add: s1_def)
  show ?thesis
  proof (cases ?loop)
    case (Inl e)
    with Some have "snd (update_run_step m db) = rollback s1"
      by (simp add: update_run_step_def Let_def raise_def s1_def Session_def)
    then have "durable (snd (update_run_step m db)) = db"
      using s1 by (simp add: rollback_def)
    then show ?thesis by simp
  next
    case (Inr s2)
    with Some have "snd (update_run_step m db) = commit s2"
      by (simp add: update_run_step_def Let_def s1_def Session_def)
    then have d: "durable (snd (update_run_step m db)) = view s2"
      by (simp add: commit_def)
    from for_each_outputs_extended [OF Inr]
    obtain new where new: "s2 = s1\<lparr> view := (view s1)\<lparr> step_run_output_artifacts :=
                 step_run_output_artifacts (view s1) @ new \<rparr> \<rparr>"
     and p: "\<forall>e\<in>set new. out_step_run_id e = srm_id m \<and>
           (out_name e, out_artifact_id e) \<in> set (srm_output_artifacts m) \<and>
           \<not> (\<exists>e0\<in>set (step_run_output_artifacts (view s1)).
                 out_step_run_id e0 = srm_id m \<and> out_artifact_id e0 = out_artifact_id e)"
     and dist: "distinct (map out_artifact_id new)"
      by blast
    have "step_run_output_artifacts (view s2) = step_run_output_artifacts db @ new"
      using new s1 by simp
    moreover have "step_run_parents (view s2) = step_run_parents db"
      "step_run_input_artifacts (view s2) = step_run_input_artifacts db"
      using new s1 by simp_all
    ultimately show ?thesis using d p dist s1 by auto
  qed
qed

text \<open>
  The theorem at the two-step run: step 2 is updated with another parent list, another
  input and two outputs, of which artifact 11 is new. The update succeeds; the parent and
  input tables stay, and the one edge to artifact 11 is appended.
\<close>

theorem update_run_step_frame_witness:
  "step_run_parents (durable (snd (update_run_step
        \<lparr> srm_id = 2, srm_name = ''evaluator'', srm_pipeline_run_id = 100,
          srm_status = COMPLETED, srm_parent_step_ids = [1, 7],
          srm_input_artifacts = [(''other'', 10)],
          srm_output_artifacts = [(''model'', 10), (''report'', 11)] \<rparr> lineage_db))) =
     [\<lparr> parent_id = 1, child_id = 2 \<rparr>] \<and>
   step_run_input_artifacts (durable (snd (update_run_step
        \<lparr> srm_id = 2, srm_name = ''evaluator'', srm_pipeline_run_id = 100,
          srm_status = COMPLETED, srm_parent_step_ids = [1, 7],
          srm_input_artifacts = [(''other'', 10)],
          srm_output_artifacts = [(''model'', 10), (''report'', 11)] \<rparr> lineage_db))) =
     [\<lparr> in_step_run_id = 2, in_artifact_id = 11, in_name = ''data'' \<rparr>] \<and>
   step_run_output_artifacts (durable (snd (update_run_step
        \<lparr> srm_id = 2, srm_name = ''evaluator'', srm_pipeline_run_id = 100,
          srm_status = COMPLETED, srm_parent_step_ids = [1, 7],
          srm_input_artifacts = [(''other'', 10)],
          srm_output_artifacts = [(''model'', 10), (''report'', 11)] \<rparr> lineage_db))) =
     step_run_output_artifacts lineage_db @
     [\<lparr> out_step_run_id = 2, out_artifact_id = 11, out_name = ''report'' \<rparr>]"
proof -
  let ?m = "\<lparr> srm_id = 2, srm_name = ''evaluator'', srm_pipeline_run_id = 100,
          srm_status = COMPLETED, srm_parent_step_ids = [1, 7],
          srm_input_artifacts = [(''other'', 10)],
          srm_output_artifacts = [(''model'', 10), (''report'', 11)] \<rparr>"
  have frame: "step_run_parents (durable (snd (update_run_step ?m lineage_db))) =
                 step_run_parents lineage_db"
       "step_run_input_artifacts (durable (snd (update_run_step ?m lineage_db))) =
                 step_run_input_artifacts lineage_db"
    using update_run_step_frame [of ?m lineage_db] by blast+
  have out: "step_run_output_artifacts (durable (snd (update_run_step ?m lineage_db))) =
     step_run_output_artifacts lineage_db @
     [\<lparr> out_step_run_id = 2, out_artifact_id = 11, out_name = ''report'' \<rparr>]"
    by (simp add: update_run_step_def lineage_db_def empty_store_def Session_def Let_def
          set_run_step_output_artifact_def step_from_update_model_def commit_def)
  from frame out show ?thesis by (simp add: lineage_db_def empty_store_def)
qed

subsection \<open>The edge check and the edge name\<close>

text \<open>
  Claim C10. The check for an existing input or output edge compares the step run id and
  the artifact id only. Linking an artifact that the step is already linked to, under any
  name whatever, returns the session as it was: no edge is added, none is renamed, nothing
  is raised, and the stored edge keeps the name it had.
\<close>

theorem relink_under_other_name_is_ignored:
  "(ie \<in> set (step_run_input_artifacts (view s)) \<and>
      (\<exists>r\<in>set (step_runs (view s)). step_id r = in_step_run_id ie) \<and>
      (\<exists>r\<in>set (artifacts (view s)). artifact_id r = in_artifact_id ie)
      \<longrightarrow> set_run_step_input_artifact (in_step_run_id ie) (in_artifact_id ie) name s = Inr s) \<and>
   (oe \<in> set (step_run_output_artifacts (view s)) \<and>
      (\<exists>r\<in>set (step_runs (view s)). step_id r = out_step_run_id oe) \<and>
      (\<exists>r\<in>set (artifacts (view s)). artifact_id r = out_artifact_id oe)
      \<longrightarrow> set_run_step_output_artifact (out_step_run_id oe) (out_artifact_id oe) name s = Inr s)"
proof (intro conjI impI)
  assume "ie \<in> set (step_run_input_artifacts (view s)) \<and>
      (\<exists>r\<in>set (step_runs (view s)). step_id r = in_step_run_id ie) \<and>
      (\<exists>r\<in>set (artifacts (view s)). artifact_id r = in_artifact_id ie)"
  then show "set_run_step_input_artifact (in_step_run_id ie) (in_artifact_id ie) name s = Inr s"
    by (intro set_input_existing) auto
next
  assume "oe \<in> set (step_run_output_artifacts (view s)) \<and>
      (\<exists>r\<in>set (step_runs (view s)). step_id r = out_step_run_id oe) \<and>
      (\<exists>r\<in>set (artifacts (view s)). artifact_id r = out_artifact_id oe)"
  then show "set_run_step_output_artifact (out_step_run_id oe) (out_artifact_id oe) name s = Inr s"
    by (intro set_output_existing) auto
qed

text \<open>
  The theorem at the two-step run: artifact 11 is the input "data" of step 2 and artifact
  10 its output "model"; linking them again as "renamed" leaves the session as it was,
  with the names "data" and "model" in the tables.
\<close>

theorem relink_under_other_name_is_ignored_witness:
  "set_run_step_input_artifact 2 11 ''renamed'' (Session lineage_db) = Inr (Session lineage_db) \<and>
   set_run_step_output_artifact 2 10 ''renamed'' (Session lineage_db) = Inr (Session lineage_db) \<and>
   map in_name (step_run_input_artifacts (view (Session lineage_db))) = [''data''] \<and>
   map out_name (step_run_output_artifacts (view (Session lineage_db))) = [''model'', ''model'']"
  using relink_under_other_name_is_ignored [of
      "\<lparr> in_step_run_id = 2, in_artifact_id = 11, in_name = ''data'' \<rparr>" "Session lineage_db"
      "''renamed''"
      "\<lparr> out_step_run_id = 2, out_artifact_id = 10, out_name = ''model'' \<rparr>"]
  by (simp add: lineage_db_def empty_store_def Session_def)

subsection \<open>The producer of an artifact\<close>

lemma distinct_ids_same_row:
  assumes "distinct (map f xs)" "x \<in> set xs" "y \<in> set xs" "f x = f y"
  shows "x = y"
  using assms by (meson distinct_map inj_onD)

lemma get_run_step_found:
  assumes "find (\<lambda>r. step_id r = i) (step_runs db) = Some r"
  shows "get_run_step i db = (Inr (run_step_schema_to_model r db), Session db)"
  using assms by (simp add: get_run_step_def Session_def)

lemma model_of_row:
  "srm_id (run_step_schema_to_model r db) = step_id r"
  "srm_status (run_step_schema_to_model r db) = step_status r"
  by (simp_all add: run_step_schema_to_model_def step_to_model_def Let_def)

text \<open>
  Claim C5. In a step table whose ids are distinct (the primary key of the table),
  \<open>get_artifact_producer_step\<close> either returns the model of a stored step run that is
  not cached and has an output edge to the artifact, or raises \<open>KeyError\<close>; and it raises
  only when no output edge of the artifact comes from a step that is not cached.
\<close>

theorem producer_step_is_not_cached:
  assumes pk: "distinct (map step_id (step_runs db))"
  shows "case fst (get_artifact_producer_step art db) of
           Inr m \<Rightarrow>
             srm_status m \<noteq> CACHED \<and>
             (\<exists>r\<in>set (step_runs db). step_id r = srm_id m \<and> step_status r = srm_status m) \<and>
             (\<exists>e\<in>set (step_run_output_artifacts db).
                out_artifact_id e = art \<and> out_step_run_id e = srm_id m)
         | Inl err \<Rightarrow>
             err = KeyError \<and>
             \<not> (\<exists>e\<in>set (step_run_output_artifacts db). out_artifact_id e = art \<and>
                  (\<exists>r\<in>set (step_runs db).
                     step_id r = out_step_run_id e \<and> step_status r \<noteq> CACHED))"
proof -
  let ?P = "\<lambda>e. out_artifact_id e = art \<and>
              list_ex (\<lambda>r. out_step_run_id e = step_id r \<and> step_status r \<noteq> CACHED)
                (step_runs db)"
  show ?thesis
  proof (cases "find ?P (step_run_output_artifacts db)")
    case None
    then have "fst (get_artifact_producer_step art db) = Inl KeyError"
      by (simp add: get_artifact_producer_step_def Session_def raise_def)
    moreover from None
    have "\<not> (\<exists>e\<in>set (step_run_output_artifacts db). out_artifact_id e = art \<and>
               (\<exists>r\<in>set (step_runs db).
                  step_id r = out_step_run_id e \<and> step_status r \<noteq> CACHED))"
      by (auto simp: find_None_iff list_ex_iff)
    ultimately show ?thesis by simp
  next
    case (Some e)
    then have e: "e \<in> set (step_run_output_artifacts db)" "out_artifact_id e = art"
      and "list_ex (\<lambda>r. out_step_run_id e = step_id r \<and> step_status r \<noteq> CACHED) (step_runs db)"
      by (auto simp: find_Some_iff in_set_conv_nth)
    then obtain r where r: "r \<in> set (step_runs db)" "step_id r = out_step_run_id e"
        "step_status r \<noteq> CACHED"
      by (auto simp: list_ex_iff)
    then obtain r' where
      r': "find (\<lambda>r. step_id r = out_step_run_id e) (step_runs db) = Some r'"
      by (cases "find (\<lambda>r. step_id r = out_step_run_id e) (step_runs db)")
         (auto simp: find_None_iff)
    then have "r' \<in> set (step_runs db)" "step_id r' = out_step_run_id e"
      by (auto simp: find_Some_iff in_set_conv_nth)
    with r pk have "r' = r"
      by (intro distinct_ids_same_row [of step_id "step_runs db"]) auto
    with r' Some
    have "fst (get_artifact_producer_step art db) = Inr (run_step_schema_to_model r db)"
      by (simp add: get_artifact_producer_step_def Session_def get_run_step_found)
    then show ?thesis using r e by (auto simp: model_of_row)
  qed
qed

text \<open>
  The theorem at the two-step run, the example of the spec: artifact 10 is an output of
  the failed step 1 and of the cached step 2, whose edge is stored first. The producer
  returned is step 1. Artifact 11 is the output of no step, and the call raises.
\<close>

theorem producer_step_is_not_cached_witness:
  "distinct (map step_id (step_runs lineage_db)) \<and>
   fst (get_artifact_producer_step 10 lineage_db) =
     Inr \<lparr> srm_id = 1, srm_name = ''trainer'', srm_pipeline_run_id = 100,
           srm_status = FAILED, srm_parent_step_ids = [], srm_input_artifacts = [],
           srm_output_artifacts = [(''model'', 10)] \<rparr> \<and>
   fst (get_artifact_producer_step 11 lineage_db) = Inl KeyError"
proof -
  have pk: "distinct (map step_id (step_runs lineage_db))"
    by (simp add: lineage_db_def empty_store_def)
  have a: "fst (get_artifact_producer_step 10 lineage_db) =
     Inr \<lparr> srm_id = 1, srm_name = ''trainer'', srm_pipeline_run_id = 100,
           srm_status = FAILED, srm_parent_step_ids = [], srm_input_artifacts = [],
           srm_output_artifacts = [(''model'', 10)] \<rparr>"
    by (simp add: get_artifact_producer_step_def lineage_db_def empty_store_def Session_def
          get_run_step_def run_step_schema_to_model_def step_to_model_def Let_def)
  have "\<not> (\<exists>e\<in>set (step_run_output_artifacts lineage_db). out_artifact_id e = 11 \<and>
              (\<exists>r\<in>set (step_runs lineage_db).
                 step_id r = out_step_run_id e \<and> step_status r \<noteq> CACHED))"
    by (simp add: lineage_db_def empty_store_def)
  with producer_step_is_not_cached [OF pk, of 11]
  have "fst (get_artifact_producer_step 11 lineage_db) = Inl KeyError"
    by (cases "fst (get_artifact_producer_step 11 lineage_db)") auto
  with pk a show ?thesis by simp
qed

section \<open>Properties of pipeline runs\<close>

subsection \<open>Sessions that commit nothing\<close>

lemma rollback_Session [simp]: "rollback (Session db) = Session db"
  by (simp add: rollback_def Session_def)

lemma durable_Session [simp]: "durable (Session db) = db" "view (Session db) = db"
  by (simp_all add: Session_def)












section \<open>Properties of the entity stores\<close>

subsection \<open>Resolving a project or a user by id\<close>





subsection \<open>Role assignments\<close>

text \<open>
  Claim C2, evaluated. In the database below the role 5 is assigned to user 1 and to team
  4 in project 3 only; no global assignment is stored. Assigning the role globally (no
  project argument) to the user or to the team raises \<open>EntityExistsError\<close> all the same:
  without a project the query for an existing assignment has no condition on the
  project column, so the project-scoped row answers it.
\<close>

theorem assign_role_globally_blocked_by_project_assignment:
  "fst (assign_role no_uuid (Uuid 5) (Uuid 1) None True sharing_db) = Inl EntityExistsError \<and>
   fst (assign_role no_uuid (Uuid 5) (Uuid 4) None False sharing_db) = Inl EntityExistsError \<and>
   filter (\<lambda>a. ura_project_id a = None) (user_role_assignments sharing_db) = [] \<and>
   filter (\<lambda>a. tra_project_id a = None) (team_role_assignments sharing_db) = []"
  by (simp add: assign_role_def assign_role_to_user_def assign_role_to_team_def sharing_db_def
        empty_store_def get_role_schema_def get_user_schema_def get_team_schema_def
        get_schema_by_name_or_id_def raise_def)

subsection \<open>Listing stacks\<close>





subsection \<open>The shared-name guard\<close>











section \<open>Transactions of the mutating operations\<close>

lemma commits_Session [simp]: "commits (Session db) = 0"
  by (simp add: Session_def)































section \<open>Properties of the secret values codec\<close>

subsection \<open>Base64, hex digits and the string scanner\<close>

lemma b64val_b64char: "i < 64 \<Longrightarrow> b64val (b64char i) = Some i"
  by (auto simp: b64val_def b64char_def)

lemma b64char_not_pad: "i < 64 \<Longrightarrow> b64char i \<noteq> 61"
  by (auto simp: b64char_def)

lemma a2b_step:
  "i < 64 \<Longrightarrow> a2b_base64 q l p out (b64char i # cs) =
     (if q = 0 then a2b_base64 1 i 0 out cs
      else if q = 1 then a2b_base64 2 (i mod 16) 0 (out @ [l * 4 + i div 16]) cs
      else if q = 2 then a2b_base64 3 (i mod 4) 0 (out @ [l * 16 + i div 4]) cs
      else a2b_base64 0 0 0 (out @ [l * 64 + i]) cs)"
  by (simp add: b64val_b64char b64char_not_pad)

lemma a2b_pad:
  "a2b_base64 q l p out (61 # cs) =
     (if q \<ge> 2 \<and> q + Suc p \<ge> 4 then Some out
      else a2b_base64 q l (if q \<ge> 2 then Suc p else p) out cs)"
  by simp


lemma b64_roundtrip_gen:
  "\<forall>b\<in>set bs. b < 256 \<Longrightarrow> a2b_base64 0 0 0 out (b64encode bs) = Some (out @ bs)"
proof (induction bs arbitrary: out rule: b64encode.induct)
  case 1
  then show ?case by simp
next
  case (2 a)
  then have a: "a < 256" by simp
  then have "a div 4 < 64" "a mod 4 * 16 < 64" by auto
  moreover have "a div 4 * 4 + a mod 4 * 16 div 16 = a" by simp
  ultimately show ?case by (simp add: a2b_step a2b_pad del: a2b_base64.simps(2))
next
  case (3 a b)
  then have ab: "a < 256" "b < 256" by simp_all
  then have "a div 4 < 64" "a mod 4 * 16 + b div 16 < 64" "b mod 16 * 4 < 64" by auto
  moreover have "a div 4 * 4 + (a mod 4 * 16 + b div 16) div 16 = a"
    "(a mod 4 * 16 + b div 16) mod 16 * 16 + b mod 16 * 4 div 4 = b" using ab by simp_all
  ultimately show ?case by (simp add: a2b_step a2b_pad del: a2b_base64.simps(2))
next
  case (4 a b c rest)
  then have abc: "a < 256" "b < 256" "c < 256" and r: "\<forall>b\<in>set rest. b < 256" by simp_all
  then have lt: "a div 4 < 64" "a mod 4 * 16 + b div 16 < 64" "b mod 16 * 4 + c div 64 < 64"
     "c mod 64 < 64" by auto
  have e1: "(a div 4) * 4 + (a mod 4 * 16 + b div 16) div 16 = a" using abc by simp
  have e2: "(a mod 4 * 16 + b div 16) mod 16 * 16 + (b mod 16 * 4 + c div 64) div 4 = b"
    using abc by simp
  have e3: "(b mod 16 * 4 + c div 64) mod 4 * 64 + c mod 64 = c" using abc by simp
  show ?case using lt abc "4.IH" [OF r] by (simp add: a2b_step a2b_pad del: a2b_base64.simps(2))
qed

lemma b64_length: "length (b64encode bs) \<le> 4 * length bs + 4"
  by (induction bs rule: b64encode.induct) simp_all

lemma b64_roundtrip: "\<forall>b\<in>set bs. b < 256 \<Longrightarrow> b64decode (b64encode bs) = Some bs"
  using b64_roundtrip_gen [of bs "[]"] by (simp add: b64decode_def)

lemma hexval_hexdigit: "d < 16 \<Longrightarrow> hexval (hexdigit d) = Some d"
  by (auto simp: hexval_def hexdigit_def)

lemma hexdigit_ascii: "d < 16 \<Longrightarrow> hexdigit d < 128"
  by (auto simp: hexdigit_def)

lemma hex_hex4_sum:
  fixes n :: nat
  assumes "n < 65536"
  shows "4096 * (n div 4096 mod 16) + 256 * (n div 256 mod 16) + 16 * (n div 16 mod 16) +
          n mod 16 = n"
proof -
  define m1 where "m1 = n div 16"
  define m2 where "m2 = m1 div 16"
  define m3 where "m3 = m2 div 16"
  have "n div (16 * 16) = n div 16 div 16" by (rule div_mult2_eq)
  then have d2: "n div 256 = m2" by (simp add: m1_def m2_def)
  have "n div (256 * 16) = n div 256 div 16" by (rule div_mult2_eq)
  then have d3: "n div 4096 = m3" by (simp add: d2 m3_def)
  have s: "m3 < 16" using assms unfolding d3 [symmetric] by simp
  have e0: "n = 16 * m1 + n mod 16" by (simp add: m1_def)
  have e1: "m1 = 16 * m2 + m1 mod 16" by (simp add: m2_def)
  have e2: "m2 = 16 * m3 + m2 mod 16" by (simp add: m3_def)
  have "4096 * m3 + 256 * (m2 mod 16) + 16 * (m1 mod 16) + n mod 16 = n"
    using e0 e1 e2 by linarith
  then show ?thesis using s by (simp add: d2 d3 m1_def [symmetric])
qed

lemma decode_hex4:
  "a < 16 \<Longrightarrow> b < 16 \<Longrightarrow> c < 16 \<Longrightarrow> d < 16 \<Longrightarrow>
   decode_uXXXX [hexdigit a, hexdigit b, hexdigit c, hexdigit d] =
     Some (4096 * a + 256 * b + 16 * c + d)"
  by (simp add: decode_uXXXX_def hexval_hexdigit)

lemma decode_hexhex4:
  assumes "n < 65536"
  shows "decode_uXXXX (hex4 n) = Some n"
proof -
  have "decode_uXXXX (hex4 n) =
        Some (4096 * (n div 4096 mod 16) + 256 * (n div 256 mod 16) + 16 * (n div 16 mod 16) +
          n mod 16)"
    unfolding hex4_def by (rule decode_hex4) simp_all
  then show ?thesis by (simp only: hex_hex4_sum [OF assms])
qed

lemma hex4_shape: "\<exists>a b c d. hex4 n = [a, b, c, d]"
  by (simp add: hex4_def)

lemma u_escape_hex4: "u_escape n = 92 # 117 # hex4 n"
  by (simp add: u_escape_def)

lemma length_hex4 [simp]: "length (hex4 n) = 4"
  by (simp add: hex4_def)

lemma scan_plain:
  "c \<noteq> 34 \<Longrightarrow> c \<noteq> 92 \<Longrightarrow> 32 \<le> c \<Longrightarrow> scanstring (c # cs) = cons_char c (scanstring cs)"
  by simp

lemma scan_short:
  "e \<noteq> 117 \<Longrightarrow> backslash e = Some ch \<Longrightarrow>
     scanstring (92 # e # cs) = cons_char ch (scanstring cs)"
  by simp

lemma scan_u:
  assumes "n < 65536"
      and "high_surrogate n \<longrightarrow> take 2 t = [92, 117] \<longrightarrow>
             (\<exists>u2. decode_uXXXX (take 4 (drop 2 t)) = Some u2 \<and> \<not> low_surrogate u2)"
  shows "scanstring (u_escape n @ t) = cons_char n (scanstring t)"
proof -
  have "scanstring (92 # 117 # (hex4 n @ t)) = cons_char n (scanstring t)"
    apply (subst scanstring.simps(2))
    using assms(2) by (auto simp: decode_hexhex4 [OF assms(1)] simp del: scanstring.simps)
  then show ?thesis by (simp add: u_escape_hex4 del: scanstring.simps)
qed

lemma scan_u_pair:
  assumes "hi < 65536" "lo < 65536" "high_surrogate hi" "low_surrogate lo"
  shows "scanstring (u_escape hi @ u_escape lo @ t) =
       cons_char (65536 + ((hi - 55296) * 1024 + (lo - 56320))) (scanstring t)"
proof -
  have d: "drop 6 (hex4 hi @ 92 # 117 # hex4 lo @ t) = hex4 lo @ t"
     "drop 10 (hex4 hi @ 92 # 117 # hex4 lo @ t) = t"
    by (simp_all add: hex4_def)
  have "scanstring (92 # 117 # (hex4 hi @ 92 # 117 # hex4 lo @ t)) =
       cons_char (65536 + ((hi - 55296) * 1024 + (lo - 56320))) (scanstring t)"
    apply (subst scanstring.simps(2))
    using assms(3,4)
    by (simp add: decode_hexhex4 [OF assms(1)] decode_hexhex4 [OF assms(2)] d
          del: scanstring.simps)
  then show ?thesis by (simp add: u_escape_hex4 del: scanstring.simps)
qed

lemma cases4: 
  fixes c :: nat
  obtains (short) "c \<in> {34, 92, 10, 13, 9, 12, 8}"
    | (plain) "c \<notin> {34, 92, 10, 13, 9, 12, 8}" "32 \<le> c" "c \<le> 126"
    | (bmp) "c \<notin> {34, 92, 10, 13, 9, 12, 8}" "c < 32 \<or> 126 < c" "c < 65536"
    | (pair) "c \<notin> {34, 92, 10, 13, 9, 12, 8}" "c < 32 \<or> 126 < c" "65536 \<le> c"
  by (meson not_le)

lemma short_case:
  assumes "c \<in> {34, 92, 10, 13, 9, 12, 8}"
  shows "scanstring (escape_ascii c @ t) = cons_char c (scanstring t)"
  using assms
  by (auto simp: escape_ascii_def backslash_def scan_short simp del: scanstring.simps)

lemma surrogate_pair_parts:
  assumes "65536 \<le> c" "c < 1114112"
  shows "55296 + (c - 65536) div 1024 mod 1024 < 65536"
    and "56320 + (c - 65536) mod 1024 < 65536"
    and "high_surrogate (55296 + (c - 65536) div 1024 mod 1024)"
    and "low_surrogate (56320 + (c - 65536) mod 1024)"
    and "65536 + ((55296 + (c - 65536) div 1024 mod 1024 - 55296) * 1024 +
                  (56320 + (c - 65536) mod 1024 - 56320)) = c"
proof -
  define n where "n = c - 65536"
  have n: "n < 1048576" "c = 65536 + n" using assms by (simp_all add: n_def)
  then have q: "n div 1024 < 1024" by simp
  then have m: "n div 1024 mod 1024 = n div 1024" by simp
  have r: "n mod 1024 < 1024" by simp
  show "55296 + (c - 65536) div 1024 mod 1024 < 65536"
    and "56320 + (c - 65536) mod 1024 < 65536"
    and "high_surrogate (55296 + (c - 65536) div 1024 mod 1024)"
    and "low_surrogate (56320 + (c - 65536) mod 1024)"
    using q r unfolding n_def [symmetric] m
    by (simp_all add: high_surrogate_def low_surrogate_def)
  have "n div 1024 * 1024 + n mod 1024 = n" by simp
  then show "65536 + ((55296 + (c - 65536) div 1024 mod 1024 - 55296) * 1024 +
                  (56320 + (c - 65536) mod 1024 - 56320)) = c"
    unfolding n_def [symmetric] m using n(2) by simp
qed

lemma escape_plain:
  assumes "c \<notin> {34, 92, 10, 13, 9, 12, 8}" "32 \<le> c" "c \<le> 126"
  shows "escape_ascii c = [c]"
  using assms by (simp add: escape_ascii_def)

lemma escape_bmp:
  assumes "c \<notin> {34, 92, 10, 13, 9, 12, 8}" "c < 32 \<or> 126 < c" "c < 65536"
  shows "escape_ascii c = u_escape c"
  using assms(2)
proof
  assume "c < 32"
  with assms(1,3) show ?thesis by (simp add: escape_ascii_def)
next
  assume "126 < c"
  with assms(1,3) show ?thesis by (simp add: escape_ascii_def)
qed

lemma escape_pair:
  assumes "c \<notin> {34, 92, 10, 13, 9, 12, 8}" "c < 32 \<or> 126 < c" "65536 \<le> c"
  shows "escape_ascii c = u_escape (55296 + (c - 65536) div 1024 mod 1024) @
           u_escape (56320 + (c - 65536) mod 1024)"
  using assms(1,3) by (simp add: escape_ascii_def)

lemma escape_step:
  assumes c: "c < 1114112"
      and ahead: "high_surrogate c \<longrightarrow> take 2 t = [92, 117] \<longrightarrow>
             (\<exists>u2. decode_uXXXX (take 4 (drop 2 t)) = Some u2 \<and> \<not> low_surrogate u2)"
  shows "scanstring (escape_ascii c @ t) = cons_char c (scanstring t)"
proof (cases c rule: cases4)
  case short
  then show ?thesis by (rule short_case)
next
  case plain
  then show ?thesis by (simp add: escape_plain scan_plain del: scanstring.simps)
next
  case bmp
  from scan_u [OF bmp(3) ahead] show ?thesis by (simp only: escape_bmp [OF bmp])
next
  case pair
  from scan_u_pair [OF surrogate_pair_parts(1-4) [OF pair(3) c], of t]
  show ?thesis
    by (simp only: escape_pair [OF pair] append_assoc surrogate_pair_parts(5) [OF pair(3) c])
qed

lemma escape_short_shape:
  assumes "d \<in> {34, 92, 10, 13, 9, 12, 8}"
  shows "\<exists>e. escape_ascii d = [92, e] \<and> e \<noteq> 117"
  using assms by (auto simp: escape_ascii_def)

lemma escape_ahead:
  assumes d: "d < 1114112" and nl: "\<not> low_surrogate d"
      and t2: "take 2 (escape_ascii d @ t) = [92, 117]"
  shows "\<exists>u2. decode_uXXXX (take 4 (drop 2 (escape_ascii d @ t))) = Some u2 \<and>
              \<not> low_surrogate u2"
proof (cases d rule: cases4)
  case short
  from escape_short_shape [OF short] t2 show ?thesis by auto
next
  case plain
  with t2 show ?thesis by (simp add: escape_plain)
next
  case bmp
  with nl show ?thesis by (simp add: escape_bmp u_escape_hex4 decode_hexhex4)
next
  case pair
  let ?hi = "55296 + (d - 65536) div 1024 mod 1024"
  from surrogate_pair_parts(3) [OF pair(3) d] have "\<not> low_surrogate ?hi"
    by (simp add: high_surrogate_def low_surrogate_def)
  then show ?thesis
    using surrogate_pair_parts(1) [OF pair(3) d]
    by (simp add: escape_pair [OF pair] u_escape_hex4 decode_hexhex4)
qed

lemma cons_char_Some [simp]: "cons_char c (Some (str, rest)) = Some (c # str, rest)"
  by (simp add: cons_char_def)

lemma unpaired_tl: "unpaired (c # cs) \<Longrightarrow> unpaired cs"
  by (cases cs) simp_all

lemma scan_escaped:
  assumes "code_points str" "unpaired str"
  shows "scanstring (concat (map escape_ascii str) @ 34 # rest) = Some (str, rest)"
  using assms
proof (induction str)
  case Nil
  then show ?case by simp
next
  case (Cons c cs)
  let ?t = "concat (map escape_ascii cs) @ 34 # rest"
  from Cons.prems have c: "c < 1114112" and cs: "code_points cs" "unpaired cs"
    by (auto simp: code_points_def dest: unpaired_tl)
  have ahead: "high_surrogate c \<longrightarrow> take 2 ?t = [92, 117] \<longrightarrow>
             (\<exists>u2. decode_uXXXX (take 4 (drop 2 ?t)) = Some u2 \<and> \<not> low_surrogate u2)"
  proof (cases cs)
    case Nil
    then show ?thesis by simp
  next
    case cs_eq: (Cons d ds)
    show ?thesis
    proof (intro impI)
      assume h: "high_surrogate c" and t2: "take 2 ?t = [92, 117]"
      from h Cons.prems(2) cs_eq have nl: "\<not> low_surrogate d" by simp
      from cs cs_eq have d: "d < 1114112" by (simp add: code_points_def)
      have t: "?t = escape_ascii d @ (concat (map escape_ascii ds) @ 34 # rest)"
        by (simp add: cs_eq)
      from escape_ahead [OF d nl, of "concat (map escape_ascii ds) @ 34 # rest"] t2
      show "\<exists>u2. decode_uXXXX (take 4 (drop 2 ?t)) = Some u2 \<and> \<not> low_surrogate u2"
        unfolding t by blast
    qed
  qed
  have "scanstring (escape_ascii c @ ?t) = cons_char c (scanstring ?t)"
    by (rule escape_step [OF c ahead])
  also have "scanstring ?t = Some (cs, rest)" by (rule Cons.IH [OF cs])
  finally show ?case by simp
qed

lemma skip_ws_simps [simp]:
  "skip_ws [] = []"
  "skip_ws (32 # cs) = skip_ws cs"
  "skip_ws (34 # cs) = 34 # cs"
  "skip_ws (44 # cs) = 44 # cs"
  "skip_ws (58 # cs) = 58 # cs"
  "skip_ws (123 # cs) = 123 # cs"
  "skip_ws (125 # cs) = 125 # cs"
  by (simp_all add: skip_ws_def)

lemma encoded_shape: "encode_basestring_ascii str = 34 # escaped str @ [34]"
  by (simp add: encode_basestring_ascii_def)

lemma scan_escaped': 
  "code_points str \<Longrightarrow> unpaired str \<Longrightarrow> scanstring (escaped str @ 34 # rest) = Some (str, rest)"
  unfolding escaped_def by (rule scan_escaped)

lemma dumps_items_shape:
  "dumps_items ((k, v) # kvs) =
     34 # escaped k @ 34 # 58 # 32 # 34 # escaped v @ 34 #
     (if kvs = [] then [] else 44 # 32 # dumps_items kvs)"
  by (cases kvs) (auto simp: encoded_shape)

lemma parse_one:
  assumes k: "code_points k" "unpaired k" and v: "code_points v" "unpaired v"
  shows "parse_pairs (Suc n) (escaped k @ 34 # 58 # 32 # 34 # escaped v @ 34 # 125 # rest) =
           Some ([(k, v)], rest)"
    and "parse_pairs (Suc n)
           (escaped k @ 34 # 58 # 32 # 34 # escaped v @ 34 # 44 # 32 # 34 # tail) =
           (case parse_pairs n tail of None \<Rightarrow> None
            | Some (pairs, rest) \<Rightarrow> Some ((k, v) # pairs, rest))"
  by (simp_all add: scan_escaped' [OF k] scan_escaped' [OF v] del: scanstring.simps)

lemma dumps_items_quote:
  "kvs \<noteq> [] \<Longrightarrow> \<exists>body. dumps_items kvs = 34 # body"
  by (cases kvs) (auto simp: dumps_items_shape)

lemma parse_dumped:
  assumes "text_pairs kvs" "dumps_items kvs = 34 # body" "length kvs \<le> n"
  shows "parse_pairs n (body @ 125 # rest) = Some (kvs, rest)"
  using assms
proof (induction kvs arbitrary: n body)
  case Nil
  then show ?case by simp
next
  case (Cons kv kvs)
  obtain k v where kv: "kv = (k, v)" by (cases kv)
  from Cons.prems kv have k: "code_points k" "unpaired k" and v: "code_points v" "unpaired v"
    and rest_ok: "text_pairs kvs"
    by (auto simp: text_pairs_def)
  from Cons.prems obtain m where n: "n = Suc m" and m: "length kvs \<le> m"
    by (cases n) auto
  show ?case
  proof (cases "kvs = []")
    case True
    with Cons.prems(2) have "body = escaped k @ 34 # 58 # 32 # 34 # escaped v @ [34]"
      by (simp add: kv dumps_items_shape)
    then show ?thesis
      using parse_one(1) [OF k v, of m rest] True by (simp add: kv n)
  next
    case False
    from dumps_items_quote [OF False] obtain body' where b': "dumps_items kvs = 34 # body'"
      by blast
    with Cons.prems(2) False
    have "body = escaped k @ 34 # 58 # 32 # 34 # escaped v @ 34 # 44 # 32 # 34 # body'"
      by (simp add: kv dumps_items_shape)
    then show ?thesis
      using parse_one(2) [OF k v, of m "body' @ 125 # rest"]
        Cons.IH [OF rest_ok b' m]
      by (simp add: kv n)
  qed
qed

lemma dumps_items_length: "length kvs \<le> length (dumps_items kvs)"
  by (induction kvs rule: dumps_items.induct) (simp_all add: encoded_shape)

lemma update_fresh:
  "k \<notin> fst ` set al \<Longrightarrow> AList.update k v al = al @ [(k, v)]"
  by (induction al) auto

lemma dict_of_gen:
  "distinct (map fst (acc @ kvs)) \<Longrightarrow>
     foldl (\<lambda>d (k, v). AList.update k v d) acc kvs = acc @ kvs"
proof (induction kvs arbitrary: acc)
  case Nil
  then show ?case by simp
next
  case (Cons kv kvs)
  obtain k v where kv: "kv = (k, v)" by (cases kv)
  from Cons.prems kv have "k \<notin> fst ` set acc" by auto
  then have "AList.update k v acc = acc @ [(k, v)]" by (rule update_fresh)
  moreover from Cons.prems kv have "distinct (map fst ((acc @ [(k, v)]) @ kvs))" by simp
  ultimately show ?case using Cons.IH [of "acc @ [(k, v)]"] by (simp add: kv)
qed

lemma dict_of_distinct: "distinct (map fst kvs) \<Longrightarrow> dict_of kvs = kvs"
  using dict_of_gen [of "[]" kvs] by (simp add: dict_of_def)

lemma json_roundtrip:
  assumes "text_pairs kvs" "distinct (map fst kvs)"
  shows "json_loads (json_dumps kvs) = Inr kvs"
proof (cases "kvs = []")
  case True
  then show ?thesis by (simp add: json_loads_def json_dumps_def)
next
  case False
  from dumps_items_quote [OF False] obtain body where b: "dumps_items kvs = 34 # body"
    by blast
  have len: "length kvs \<le> length (123 # 34 # body @ [125])"
    using dumps_items_length [of kvs] by (simp add: b)
  have shape: "json_dumps kvs = 123 # 34 # body @ [125]"
    by (simp add: json_dumps_def b)
  have "parse_pairs (length (123 # 34 # body @ [125])) (body @ 125 # []) = Some (kvs, [])"
    by (rule parse_dumped [OF assms(1) b len])
  then show ?thesis
    unfolding shape json_loads_def
    by (simp add: dict_of_distinct [OF assms(2)])
qed

lemma escape_ascii_ascii: "x \<in> set (escape_ascii c) \<Longrightarrow> x < 128"
proof (cases c rule: cases4)
  case short
  assume "x \<in> set (escape_ascii c)"
  with short show ?thesis by (auto simp: escape_ascii_def)
next
  case plain
  assume "x \<in> set (escape_ascii c)"
  with plain show ?thesis by (simp add: escape_plain)
next
  case bmp
  assume "x \<in> set (escape_ascii c)"
  with bmp show ?thesis
    by (auto simp: escape_bmp u_escape_def hex4_def intro!: hexdigit_ascii)
next
  case pair
  assume "x \<in> set (escape_ascii c)"
  then show ?thesis
    by (auto simp: escape_pair [OF pair] u_escape_def hex4_def intro!: hexdigit_ascii)
qed

lemma encoded_ascii: "x \<in> set (encode_basestring_ascii str) \<Longrightarrow> x < 128"
  by (auto simp: encode_basestring_ascii_def escaped_def dest: escape_ascii_ascii)

lemma dumps_items_ascii: "x \<in> set (dumps_items kvs) \<Longrightarrow> x < 128"
  by (induction kvs rule: dumps_items.induct) (auto dest: encoded_ascii)

lemma json_dumps_ascii: "x \<in> set (json_dumps kvs) \<Longrightarrow> x < 128"
  by (auto simp: json_dumps_def dest: dumps_items_ascii)

lemma utf8_encode_ascii: "\<forall>c\<in>set str. c < 128 \<Longrightarrow> utf8_encode str = Some str"
  by (induction str) (simp_all add: utf8_encode_char_def)

lemma utf8_decode_ascii: "\<forall>c\<in>set str. c < 128 \<Longrightarrow> utf8_decode str = Some str"
  by (induction str) (simp_all add: cons_point_def)

subsection \<open>The surrogate pair\<close>

lemma ce_dumps:
  "json_dumps [([107], [55357, 56832])] =
     [123, 34, 107, 34, 58, 32, 34, 92, 117, 100, 56, 51, 100, 92, 117, 100, 101, 48, 48, 34, 125]"
  by (simp add: json_dumps_def encode_basestring_ascii_def escaped_def escape_ascii_def
        u_escape_def hex4_def hexdigit_def)

lemma ce_b64:
  "b64encode [123, 34, 107, 34, 58, 32, 34, 92, 117, 100, 56, 51, 100, 92, 117, 100, 101, 48, 48, 34, 125] =
    [101, 121, 74, 114, 73, 106, 111, 103, 73, 108, 120, 49, 90, 68, 103, 122, 90, 70,
          120, 49, 90, 71, 85, 119, 77, 67, 74, 57]"
  by (simp add: b64char_def)

lemma ce_loads:
  "json_loads [123, 34, 107, 34, 58, 32, 34, 92, 117, 100, 56, 51, 100, 92, 117, 100, 101, 48, 48, 34, 125] =
     Inr [([107], [128512])]"
  by (simp add: json_loads_def decode_uXXXX_def hexval_def high_surrogate_def low_surrogate_def
        cons_char_def dict_of_def)

text \<open>
  Claim C8 as stated fails for a string in which a high surrogate code point is directly
  followed by a low surrogate code point. The value of the secret below is the Python
  string of the two code points \<^verbatim>\<open>0xD83D\<close> and \<^verbatim>\<open>0xDE00\<close>. It is dumped as
  a JSON text with one four-digit escape for each of the two code points (here in
  base64), and the loader reads the two escapes as the one code point \<^verbatim>\<open>0x1F600\<close>: the loaded mapping is not the original.
\<close>

theorem surrogate_pair_counterexample:
  "dump_secret_values 65535 () [([107], [55357, 56832])] (None :: unit engine option) =
     Inr [101, 121, 74, 114, 73, 106, 111, 103, 73, 108, 120, 49, 90, 68, 103, 122, 90, 70,
          120, 49, 90, 71, 85, 119, 77, 67, 74, 57] \<and>
   load_secret_values
     [101, 121, 74, 114, 73, 106, 111, 103, 73, 108, 120, 49, 90, 68, 103, 122, 90, 70,
      120, 49, 90, 71, 85, 119, 77, 67, 74, 57] (None :: unit engine option) =
     Inr [([107], [128512])]"
proof -
  let ?txt = "[123, 34, 107, 34, 58, 32, 34, 92, 117, 100, 56, 51, 100, 92, 117, 100, 101, 48,
               48, 34, 125] :: nat list"
  have ascii: "\<forall>c\<in>set ?txt. c < 128" by simp
  then have bytes: "\<forall>b\<in>set ?txt. b < 256" by simp
  have "b64decode (b64encode ?txt) = Some ?txt" by (rule b64_roundtrip [OF bytes])
  then have dec: "b64decode [101, 121, 74, 114, 73, 106, 111, 103, 73, 108, 120, 49, 90, 68,
      103, 122, 90, 70, 120, 49, 90, 71, 85, 119, 77, 67, 74, 57] = Some ?txt"
    by (simp only: ce_b64)
  show ?thesis
    by (simp add: dump_secret_values_def load_secret_values_def ce_dumps ce_b64 ce_loads dec
          utf8_encode_ascii [OF ascii] utf8_decode_ascii [OF ascii]
          del: b64encode.simps utf8_encode.simps utf8_decode.simps)
qed

subsection \<open>The round trip\<close>

text \<open>
  Claim C8, amended. Let the keys and values of a mapping be strings of code points in
  which no high surrogate is directly followed by a low surrogate (every string of Unicode
  text is one), the keys distinct as in any dictionary, and let the engine, if there is
  one, decrypt what it encrypts. Then there is one encoded text such that
  \<open>_dump_secret_values\<close> returns it whenever its length is within the limit and raises
  \<open>ValueError\<close> exactly when its length exceeds the limit, and \<open>_load_secret_values\<close>
  returns the original mapping from it, with the engine and in the base64 mode alike.
\<close>

theorem secret_values_round_trip:
  assumes "text_pairs values" and "distinct (map fst values)"
      and "\<forall>eng. encryption_engine = Some eng \<longrightarrow>
             (\<forall>iv str. decrypt eng (encrypt eng iv str) = Some str)"
  shows "\<exists>enc. (\<forall>n. dump_secret_values n iv values encryption_engine =
                    (if length enc > n then Inl ValueError else Inr enc)) \<and>
               load_secret_values enc encryption_engine = Inr values"
proof (cases encryption_engine)
  case None
  let ?txt = "json_dumps values"
  have ascii: "\<forall>c\<in>set ?txt. c < 128" by (auto dest: json_dumps_ascii)
  then have bytes: "\<forall>b\<in>set ?txt. b < 256" by fastforce
  have enc: "utf8_encode ?txt = Some ?txt" by (rule utf8_encode_ascii [OF ascii])
  have dec: "utf8_decode ?txt = Some ?txt" by (rule utf8_decode_ascii [OF ascii])
  have b64: "b64decode (b64encode ?txt) = Some ?txt" by (rule b64_roundtrip [OF bytes])
  show ?thesis
  proof (intro exI [of _ "b64encode ?txt"] conjI allI)
    show "dump_secret_values n iv values encryption_engine =
            (if length (b64encode ?txt) > n then Inl ValueError else Inr (b64encode ?txt))" for n
      by (simp add: dump_secret_values_def None enc)
    show "load_secret_values (b64encode ?txt) encryption_engine = Inr values"
      by (simp add: load_secret_values_def None b64 dec json_roundtrip [OF assms(1,2)])
  qed
next
  case (Some eng)
  with assms(3) have law: "\<And>iv str. decrypt eng (encrypt eng iv str) = Some str" by blast
  let ?txt = "json_dumps values"
  show ?thesis
  proof (intro exI [of _ "encrypt eng iv ?txt"] conjI allI)
    show "dump_secret_values n iv values encryption_engine =
            (if length (encrypt eng iv ?txt) > n then Inl ValueError
             else Inr (encrypt eng iv ?txt))" for n
      by (simp add: dump_secret_values_def Some)
    show "load_secret_values (encrypt eng iv ?txt) encryption_engine = Inr values"
      by (simp add: load_secret_values_def Some law json_roundtrip [OF assms(1,2)])
  qed
qed


text \<open>
  The theorem at the sample secret, whose value has a quote, a character beyond ASCII and
  a line feed: the hypotheses hold, the dumped text is loaded back in both modes, and a
  limit of ten characters makes the dump raise.
\<close>

theorem secret_values_round_trip_witness:
  "text_pairs sample_secret \<and> distinct (map fst sample_secret) \<and>
   (\<exists>enc. dump_secret_values 65535 (0::nat) sample_secret None = Inr enc \<and>
           load_secret_values enc (None :: nat engine option) = Inr sample_secret) \<and>
   (\<exists>enc. dump_secret_values 65535 7 sample_secret (Some toy_engine) = Inr enc \<and>
           load_secret_values enc (Some toy_engine) = Inr sample_secret) \<and>
   dump_secret_values 10 7 sample_secret (Some toy_engine) = Inl ValueError"
proof -
  have tp: "text_pairs sample_secret"
    by (simp add: text_pairs_def sample_secret_def code_points_def high_surrogate_def)
  have di: "distinct (map fst sample_secret)" by (simp add: sample_secret_def)
  have law: "\<forall>eng. Some toy_engine = Some eng \<longrightarrow>
             (\<forall>iv str. decrypt eng (encrypt eng iv str) = Some str)"
    by (simp add: toy_engine_def)
  have len: "length (json_dumps sample_secret) = 38"
    by (simp add: sample_secret_def json_dumps_def encode_basestring_ascii_def escaped_def
          escape_ascii_def u_escape_def hex4_def)
  from secret_values_round_trip [OF tp di, of None 0] obtain enc where
    e1: "\<forall>n. dump_secret_values n (0::nat) sample_secret None =
              (if length enc > n then Inl ValueError else Inr enc)"
    and l1: "load_secret_values enc (None :: nat engine option) = Inr sample_secret"
    by auto
  have "dump_secret_values 65535 (0::nat) sample_secret None \<noteq> Inl ValueError"
    using b64_length [of "json_dumps sample_secret"]
    by (simp add: dump_secret_values_def utf8_encode_ascii json_dumps_ascii len
          del: b64encode.simps utf8_encode.simps)
  with e1 have d1: "dump_secret_values 65535 (0::nat) sample_secret None = Inr enc"
    by (simp split: if_splits)
  from secret_values_round_trip [OF tp di law, of 7] obtain enc2 where
    e2: "\<forall>n. dump_secret_values n 7 sample_secret (Some toy_engine) =
              (if length enc2 > n then Inl ValueError else Inr enc2)"
    and l2: "load_secret_values enc2 (Some toy_engine) = Inr sample_secret"
    by auto
  have big: "dump_secret_values 65535 7 sample_secret (Some toy_engine) \<noteq> Inl ValueError"
    and small: "dump_secret_values 10 7 sample_secret (Some toy_engine) = Inl ValueError"
    by (simp_all add: dump_secret_values_def toy_engine_def len)
  from e2 big have d2: "dump_secret_values 65535 7 sample_secret (Some toy_engine) = Inr enc2"
    by (simp split: if_splits)
  from tp di d1 l1 d2 l2 small show ?thesis by blast
qed

end
